theory Spec2Isabelle
  imports Complex_Main "HOL-Library.Multiset"
begin

section \<open>Queen-bee and mutant-bee evolution (qbmb.py)\<close>

text \<open>
  The script is one module: constants, two helper functions, derived constants, and an
  unbounded loop over generations. Tensors of shape (n, L) are lists of rows, integer
  tensors hold \<open>int\<close>, and every random draw of the script is read from an explicit
  random source, so that one generation is a function of the state and the source.
\<close>

subsection \<open>Constants\<close>

text \<open>
  \<open>config\<close> holds the constants as the loop reads them: the sizes are natural numbers,
  and \<open>NUM_TOURNAMENT_PARTICIPANTS\<close> is the bound of the slice of line 88 counted from
  the start of a row. \<open>constants\<close> further down holds the Python values, whose
  integers can be negative.
\<close>

record config =
  GOAL :: string
  POP_SIZE :: nat
  MUTATION_PROB :: rat
  STRONG_MUTATION_PROB :: rat
  NUM_TOURNAMENT_PARTICIPANTS :: nat

text \<open>
  The values of lines 16 to 21. The probabilities are exact rationals; their products
  with the gene length, 1 and 6.25, are the values the script computes in floating
  point as well.
\<close>

definition script_config :: config where
  "script_config =
     \<lparr>GOAL = ''Attention is all you need'', POP_SIZE = 100, MUTATION_PROB = 4 / 100,
      STRONG_MUTATION_PROB = 25 / 100, NUM_TOURNAMENT_PARTICIPANTS = 25\<rparr>"

type_synonym gene = "int list"

text \<open>
  \<open>encode\<close>: the code point of every character (a character of the model is a byte,
  which covers the \<open>GOAL\<close> of the script). \<open>decode\<close> serves the printing only.
\<close>

definition encode :: "string \<Rightarrow> gene" where
  "encode s = map (\<lambda>c. of_char c) s"

definition gene_length :: "config \<Rightarrow> nat" where
  "gene_length cfg = length (GOAL cfg)"

definition gene_midpoint :: "config \<Rightarrow> nat" where
  "gene_midpoint cfg = gene_length cfg div 2"

definition target_gene :: "config \<Rightarrow> gene" where
  "target_gene cfg = encode (GOAL cfg)"

definition num_code_mutate :: "config \<Rightarrow> rat" where
  "num_code_mutate cfg = MUTATION_PROB cfg * of_nat (gene_length cfg)"

definition strong_num_code_mutate :: "config \<Rightarrow> rat" where
  "strong_num_code_mutate cfg = STRONG_MUTATION_PROB cfg * of_nat (gene_length cfg)"

subsection \<open>Fitness\<close>

text \<open>
  Line 53 divides the float 1 by an integer tensor. The division follows IEEE 754: a
  zero divisor gives the value \<open>inf\<close>, nothing is raised. A fitness is therefore either
  \<open>Infinity\<close> or a finite number; the finite quotient is kept exact (a rational), the
  rounding of the float format is left out. The sum of squares is an \<open>int\<close>: the
  64-bit sum of the script cannot wrap for byte-valued genes (lemma
  \<open>square_error_no_wrap\<close> below).
\<close>

datatype fitness = Finite rat | Infinity

fun fit_less :: "fitness \<Rightarrow> fitness \<Rightarrow> bool" where
  "fit_less (Finite a) (Finite b) = (a < b)"
| "fit_less (Finite a) Infinity = True"
| "fit_less Infinity b = False"

fun fit_le :: "fitness \<Rightarrow> fitness \<Rightarrow> bool" where
  "fit_le (Finite a) (Finite b) = (a \<le> b)"
| "fit_le a Infinity = True"
| "fit_le Infinity (Finite b) = False"

definition square_error :: "gene \<Rightarrow> gene \<Rightarrow> int" where
  "square_error t g = sum_list (map (\<lambda>(x, y). (x - y)\<^sup>2) (zip g t))"

definition float_div_one :: "int \<Rightarrow> fitness" where
  "float_div_one s = (if s = 0 then Infinity else Finite (1 / of_int s))"

definition fitness_of :: "gene \<Rightarrow> gene \<Rightarrow> fitness" where
  "fitness_of t g = float_div_one (square_error t g)"

subsection \<open>Random draws\<close>

text \<open>
  \<open>torch.randint(low, high, shape)\<close> draws integers from \<open>low\<close> (inclusive) to
  \<open>high\<close> (exclusive); an entry is read off a raw natural number of the source.
  \<open>torch.randn\<close> draws numbers of which the script only uses the order, through
  \<open>argsort\<close>; an entry is a rational of the source.
\<close>

definition randint :: "int \<Rightarrow> int \<Rightarrow> nat \<Rightarrow> int" where
  "randint low high r = low + int r mod (high - low)"

primrec insort_idx :: "(nat \<Rightarrow> nat \<Rightarrow> bool) \<Rightarrow> nat \<Rightarrow> nat list \<Rightarrow> nat list" where
  "insort_idx precedes i [] = [i]"
| "insort_idx precedes i (j # js) =
     (if precedes j i then j # insort_idx precedes i js else i # j # js)"

text \<open>
  The indices \<open>0..<n\<close> in the order given by \<open>precedes\<close> (insertion sort; entries
  that compare equal keep the order of their indices, which torch leaves open).
\<close>

definition argsort_by :: "(nat \<Rightarrow> nat \<Rightarrow> bool) \<Rightarrow> nat \<Rightarrow> nat list" where
  "argsort_by precedes n = foldr (insort_idx precedes) [0..<n] []"

definition argsort :: "rat list \<Rightarrow> nat list" where
  "argsort keys = argsort_by (\<lambda>j i. keys ! j < keys ! i) (length keys)"

text \<open>\<open>fitnesses.sort(descending = True).indices\<close>\<close>

definition sort_descending_indices :: "fitness list \<Rightarrow> nat list" where
  "sort_descending_indices fs = argsort_by (\<lambda>j i. fit_less (fs ! i) (fs ! j)) (length fs)"

text \<open>The draws of one generation, by line: 88, 96, 97, 109, 119, 120.\<close>

record draws =
  contender_randn :: "nat \<Rightarrow> nat \<Rightarrow> rat"
  strong_mask_randn :: "nat \<Rightarrow> nat \<Rightarrow> rat"
  strong_noise_raw :: "nat \<Rightarrow> nat \<Rightarrow> nat"
  crossover_randn :: "nat \<Rightarrow> nat \<Rightarrow> rat"
  mask_randn :: "nat \<Rightarrow> nat \<Rightarrow> rat"
  noise_raw :: "nat \<Rightarrow> nat \<Rightarrow> nat"

subsection \<open>State and one generation\<close>

text \<open>
  \<open>queen\<close> and \<open>queen_fitness\<close> are set and cleared together: one optional pair.
  \<open>fitnesses\<close> is recomputed from \<open>pool\<close> at the top of every iteration, so it is
  not part of the state between iterations. Printing is left out.
\<close>

record state =
  generation :: nat
  pool :: "gene list"
  queen :: "(gene \<times> fitness) option"

datatype error = IndexError | RuntimeError

text \<open>Lines 42 to 46.\<close>

definition initial_state :: "config \<Rightarrow> (nat \<Rightarrow> nat \<Rightarrow> nat) \<Rightarrow> state" where
  "initial_state cfg raw =
     \<lparr>generation = 1,
      pool = map (\<lambda>i. map (\<lambda>j. randint 0 255 (raw i j)) [0..<gene_length cfg])
               [0..<POP_SIZE cfg],
      queen = None\<rparr>"

text \<open>Lines 53 to 56: the fitness of every row, then both tensors in descending order.\<close>

definition evaluate :: "config \<Rightarrow> gene list \<Rightarrow> gene list \<times> fitness list" where
  "evaluate cfg p =
     (let fitnesses = map (fitness_of (target_gene cfg)) p;
          indices = sort_descending_indices fitnesses
      in (map (\<lambda>i. p ! i) indices, map (\<lambda>i. fitnesses ! i) indices))"

text \<open>
  Lines 75 to 78: a queen beaten by the first child is appended to the pool, her fitness
  to the fitnesses. \<open>fitnesses[0]\<close> of an empty tensor raises.
\<close>

definition demote ::
  "(gene \<times> fitness) option \<Rightarrow> gene list \<Rightarrow> fitness list \<Rightarrow>
     error + ((gene \<times> fitness) option \<times> gene list \<times> fitness list)" where
  "demote q p fs =
     (case q of
        None \<Rightarrow> Inr (None, p, fs)
      | Some (qg, qf) \<Rightarrow>
          (case fs of
             [] \<Rightarrow> Inl IndexError
           | f0 # _ \<Rightarrow>
               if fit_less qf f0 then Inr (None, p @ [qg], fs @ [qf]) else Inr (q, p, fs)))"

text \<open>Lines 82 to 84: without a queen, the first row becomes the queen.\<close>

definition separate ::
  "(gene \<times> fitness) option \<Rightarrow> gene list \<Rightarrow> fitness list \<Rightarrow>
     error + ((gene \<times> fitness) \<times> gene list \<times> fitness list)" where
  "separate q p fs =
     (case q of
        Some qq \<Rightarrow> Inr (qq, p, fs)
      | None \<Rightarrow>
          (case (p, fs) of
             (g # p', f # fs') \<Rightarrow> Inr ((g, f), p', fs')
           | _ \<Rightarrow> Inl IndexError))"

text \<open>
  \<open>topk(1, largest = True).indices\<close> of one row: the index of a largest entry (the
  first one; torch leaves the choice among equal entries open).
\<close>

definition topk1 :: "fitness list \<Rightarrow> nat" where
  "topk1 fs = hd (sort_descending_indices fs)"

text \<open>
  Lines 88 to 92. Row \<open>i\<close> of \<open>contender_ids\<close> holds the first
  \<open>NUM_TOURNAMENT_PARTICIPANTS\<close> entries of a random order of \<open>0..<POP_SIZE - 1\<close>
  (the slice stops at the end of the row). Indexing the pool past its end raises, and
  so does \<open>topk(1)\<close> along an empty dimension.
\<close>

definition contender_ids :: "config \<Rightarrow> draws \<Rightarrow> nat list list" where
  "contender_ids cfg d =
     map (\<lambda>i. take (NUM_TOURNAMENT_PARTICIPANTS cfg)
                (argsort (map (contender_randn d i) [0..<POP_SIZE cfg - 1])))
       [0..<POP_SIZE cfg - 1]"

definition tournament :: "config \<Rightarrow> draws \<Rightarrow> gene list \<Rightarrow> fitness list \<Rightarrow> error + gene list" where
  "tournament cfg d p fs =
     (if POP_SIZE cfg = 0 then Inl RuntimeError
      else if \<exists>row \<in> set (contender_ids cfg d). \<exists>c \<in> set row. length p \<le> c
        then Inl IndexError
      else if min (NUM_TOURNAMENT_PARTICIPANTS cfg) (POP_SIZE cfg - 1) = 0
        then Inl RuntimeError
      else Inr (map (\<lambda>row.
                  let participants = map (\<lambda>c. p ! c) row;
                      tournaments = map (\<lambda>c. fs ! c) row;
                      top_winner = topk1 tournaments
                  in participants ! top_winner)
                (contender_ids cfg d)))"

text \<open>
  The mask of lines 96 and 119: \<open>randn(shape).argsort(dim = -1) < threshold\<close>, one row.
  The threshold is the product of a probability and the gene length, not rounded to an
  integer. The script forms the product in double precision and compares the ranks
  with it in single precision; the model compares with the exact product, which is the
  same comparison when the probability and the product are single-precision numbers
  (\<open>float_exact\<close> below) and the ranks stay below \<open>2^24\<close>.
\<close>

definition mutate_mask :: "rat \<Rightarrow> (nat \<Rightarrow> rat) \<Rightarrow> nat \<Rightarrow> bool list" where
  "mutate_mask threshold randn n =
     map (\<lambda>r. of_nat r < threshold) (argsort (map randn [0..<n]))"

text \<open>\<open>torch.randint(0, 2, shape) * 2 - 1\<close>, one row.\<close>

definition sign_noise :: "(nat \<Rightarrow> nat) \<Rightarrow> nat \<Rightarrow> int list" where
  "sign_noise raw n = map (\<lambda>j. randint 0 2 (raw j) * 2 - 1) [0..<n]"

text \<open>\<open>torch.where(mask, g + noise, g)\<close>, one row.\<close>

definition where_add :: "bool list \<Rightarrow> gene \<Rightarrow> int list \<Rightarrow> gene" where
  "where_add msk g noise =
     map (\<lambda>j. if msk ! j then g ! j + noise ! j else g ! j) [0..<length g]"

definition clamp :: "int \<Rightarrow> int \<Rightarrow> int \<Rightarrow> int" where
  "clamp lo hi x = min (max x lo) hi"

text \<open>Lines 96 to 99, row \<open>i\<close> of \<open>parents\<close>.\<close>

definition strong_mutate_row :: "config \<Rightarrow> draws \<Rightarrow> nat \<Rightarrow> gene \<Rightarrow> gene" where
  "strong_mutate_row cfg d i g =
     (let strong_mutate_mask =
            mutate_mask (strong_num_code_mutate cfg) (strong_mask_randn d i) (length g);
          noise = sign_noise (strong_noise_raw d i) (length g)
      in map (clamp 0 255) (where_add strong_mutate_mask g noise))"

definition strong_mutate :: "config \<Rightarrow> draws \<Rightarrow> gene list \<Rightarrow> gene list" where
  "strong_mutate cfg d parents =
     map (\<lambda>i. strong_mutate_row cfg d i (parents ! i)) [0..<length parents]"

text \<open>
  Lines 103 to 115, child \<open>i\<close>: the pair (queen, mutated parent) is reordered by a
  random order of \<open>[0, 1]\<close>; the child is the first half of the first of the pair and
  the second half of the second.
\<close>

definition crossover_row :: "config \<Rightarrow> draws \<Rightarrow> nat \<Rightarrow> gene \<Rightarrow> gene \<Rightarrow> gene" where
  "crossover_row cfg d i q m =
     (let queen_and_parents = [q, m];
          rand_crossover_order = argsort (map (crossover_randn d i) [0..<2]);
          queen_parents = queen_and_parents ! (rand_crossover_order ! 0);
          mutated_parents = queen_and_parents ! (rand_crossover_order ! 1)
      in take (gene_midpoint cfg) queen_parents @ drop (gene_midpoint cfg) mutated_parents)"

definition crossover :: "config \<Rightarrow> draws \<Rightarrow> gene \<Rightarrow> gene list \<Rightarrow> gene list" where
  "crossover cfg d q mutated_parents =
     map (\<lambda>i. crossover_row cfg d i q (mutated_parents ! i)) [0..<POP_SIZE cfg - 1]"

text \<open>Lines 119 to 121, row \<open>i\<close> of the pool: the value bound to \<open>mutated_pool\<close>.\<close>

definition mutate_row :: "config \<Rightarrow> draws \<Rightarrow> nat \<Rightarrow> gene \<Rightarrow> gene" where
  "mutate_row cfg d i g =
     (let msk = mutate_mask (num_code_mutate cfg) (mask_randn d i) (length g);
          noise = sign_noise (noise_raw d i) (length g)
      in where_add msk g noise)"

definition mutate :: "config \<Rightarrow> draws \<Rightarrow> gene list \<Rightarrow> gene list" where
  "mutate cfg d p = map (\<lambda>i. mutate_row cfg d i (p ! i)) [0..<length p]"

text \<open>
  The variables of one iteration that reaches line 123: the queen, pool and fitnesses
  after line 84, and the values bound at lines 92, 99, 115, 121 and 123.
\<close>

record locals =
  the_queen :: "gene \<times> fitness"
  selection_pool :: "gene list"
  selection_fitnesses :: "fitness list"
  parents :: "gene list"
  mutated_parents :: "gene list"
  crossed_pool :: "gene list"
  mutated_pool :: "gene list"
  clamped_pool :: "gene list"

datatype outcome = Solved "gene list" "fitness list" | Next locals

text \<open>
  The body of the loop, lines 53 to 123. Subtracting the target from a pool whose rows
  have another length is a shape error (torch would stretch a dimension of size 1; the
  pool is created with \<open>gene_length\<close> columns and keeps them, so the branch is not
  taken from a reachable state). \<open>Solved\<close> is the \<open>break\<close> of line 70, with the
  sorted pool and fitnesses.
\<close>

definition generation_body :: "config \<Rightarrow> draws \<Rightarrow> state \<Rightarrow> error + outcome" where
  "generation_body cfg d s =
     (if \<exists>g \<in> set (pool s). length g \<noteq> gene_length cfg then Inl RuntimeError
      else
        (case evaluate cfg (pool s) of (p1, fs1) \<Rightarrow>
          if Infinity \<in> set fs1 then Inr (Solved p1 fs1)
          else
            (case demote (queen s) p1 fs1 of
               Inl e \<Rightarrow> Inl e
             | Inr (q2, p2, fs2) \<Rightarrow>
                 (case separate q2 p2 fs2 of
                    Inl e \<Rightarrow> Inl e
                  | Inr (q3, p3, fs3) \<Rightarrow>
                      (case tournament cfg d p3 fs3 of
                         Inl e \<Rightarrow> Inl e
                       | Inr ps \<Rightarrow>
                           (let mps = strong_mutate cfg d ps;
                                cp = crossover cfg d (fst q3) mps
                            in Inr (Next \<lparr>the_queen = q3, selection_pool = p3,
                                     selection_fitnesses = fs3, parents = ps,
                                     mutated_parents = mps, crossed_pool = cp,
                                     mutated_pool = mutate cfg d cp,
                                     clamped_pool = map (map (clamp 0 255)) cp\<rparr>)))))))"

text \<open>
  The state at the top of the next iteration: \<open>pool\<close> is the tensor clamped at line
  123, the queen is the one held after line 84, and line 127 increments the counter.
\<close>

definition next_state :: "state \<Rightarrow> locals \<Rightarrow> state" where
  "next_state s l =
     \<lparr>generation = generation s + 1, pool = clamped_pool l, queen = Some (the_queen l)\<rparr>"

text \<open>The states the loop can be in at the top of an iteration.\<close>

inductive reachable :: "config \<Rightarrow> state \<Rightarrow> bool" for cfg :: config where
  start: "reachable cfg (initial_state cfg raw)"
| iterate: "reachable cfg s \<Longrightarrow> generation_body cfg d s = Inr (Next l) \<Longrightarrow>
            reachable cfg (next_state s l)"

subsection \<open>Predicates on states\<close>

definition byte_gene :: "gene \<Rightarrow> bool" where
  "byte_gene g = (\<forall>v \<in> set g. 0 \<le> v \<and> v \<le> 255)"

definition sorted_descending :: "fitness list \<Rightarrow> bool" where
  "sorted_descending fs = sorted_wrt (\<lambda>a b. fit_le b a) fs"

text \<open>
  What holds of the state at the top of every iteration: the shape of the pool, the
  range of the genes, and a queen whose stored fitness is finite and is the fitness of
  her gene.
\<close>

definition well_formed :: "config \<Rightarrow> state \<Rightarrow> bool" where
  "well_formed cfg s =
     ((\<forall>g \<in> set (pool s). length g = gene_length cfg \<and> byte_gene g) \<and>
      (case queen s of
         None \<Rightarrow> length (pool s) = POP_SIZE cfg
       | Some (q, f) \<Rightarrow>
           length (pool s) = POP_SIZE cfg - 1 \<and> length q = gene_length cfg \<and> byte_gene q \<and>
           f = fitness_of (target_gene cfg) q \<and> f \<noteq> Infinity))"

text \<open>Some member of the pool, or the queen if there is one, has infinite fitness.\<close>

definition infinite_fitness_present :: "config \<Rightarrow> state \<Rightarrow> bool" where
  "infinite_fitness_present cfg s =
     ((\<exists>g \<in> set (pool s). fitness_of (target_gene cfg) g = Infinity) \<or>
      (\<exists>q f. queen s = Some (q, f) \<and> f = Infinity))"

text \<open>The condition of line 75 on the state at the top of the iteration.\<close>

definition queen_demoted :: "config \<Rightarrow> state \<Rightarrow> bool" where
  "queen_demoted cfg s =
     (case queen s of
        None \<Rightarrow> False
      | Some (q, f) \<Rightarrow>
          (case snd (evaluate cfg (pool s)) of [] \<Rightarrow> False | f0 # _ \<Rightarrow> fit_less f f0))"

text \<open>
  A condition under which single precision represents a rational exactly: in lowest
  terms its denominator is a power of two (below \<open>2^100\<close>) and its numerator has at
  most 24 bits. Such a number is a double as well, so a Python literal denotes it
  exactly; and when its product with the gene length satisfies the condition too, the
  double-precision product of line 38 and its conversion to single precision at line 96
  are exact.
\<close>

definition float_exact :: "rat \<Rightarrow> bool" where
  "float_exact x =
     (case quotient_of x of (a, b) \<Rightarrow>
        \<bar>a\<bar> < 2 ^ 24 \<and> b \<in> set (map (\<lambda>k. 2 ^ k) [0..<100]))"

subsection \<open>Before the loop\<close>

text \<open>
  The constants of lines 16 to 21 as Python values. Nothing between line 16 and the
  loop inspects them; the one thing that can fail there is \<open>torch.randint\<close> at line 44,
  which refuses a negative size.
\<close>

record constants =
  const_GOAL :: string
  const_POP_SIZE :: int
  const_MUTATION_PROB :: rat
  const_STRONG_MUTATION_PROB :: rat
  const_NUM_TOURNAMENT_PARTICIPANTS :: int

text \<open>
  The number of entries that the slice \<open>[:k]\<close> keeps of a dimension of \<open>n\<close> entries is
  the least of \<open>n\<close> and \<open>slice_stop k n\<close>: a negative \<open>k\<close> counts from the end.
\<close>

definition slice_stop :: "int \<Rightarrow> nat \<Rightarrow> nat" where
  "slice_stop k n = (if 0 \<le> k then nat k else nat (int n + k))"

definition as_config :: "constants \<Rightarrow> config" where
  "as_config c =
     \<lparr>GOAL = const_GOAL c, POP_SIZE = nat (const_POP_SIZE c),
      MUTATION_PROB = const_MUTATION_PROB c,
      STRONG_MUTATION_PROB = const_STRONG_MUTATION_PROB c,
      NUM_TOURNAMENT_PARTICIPANTS =
        slice_stop (const_NUM_TOURNAMENT_PARTICIPANTS c) (nat (const_POP_SIZE c) - 1)\<rparr>"

text \<open>Lines 16 to 46: the state with which the loop is entered, or the error of line 44.\<close>

definition startup :: "constants \<Rightarrow> (nat \<Rightarrow> nat \<Rightarrow> nat) \<Rightarrow> error + config \<times> state" where
  "startup c raw =
     (if const_POP_SIZE c < 0 then Inl RuntimeError
      else Inr (as_config c, initial_state (as_config c) raw))"

text \<open>
  The configurations that section 7 of the specification calls configuration errors
  (stated from the specification; the script has no such check).
\<close>

definition spec_configuration_error :: "constants \<Rightarrow> bool" where
  "spec_configuration_error c =
     (const_POP_SIZE c \<le> const_NUM_TOURNAMENT_PARTICIPANTS c \<or>
      const_NUM_TOURNAMENT_PARTICIPANTS c < 1 \<or> const_GOAL c = [] \<or>
      const_MUTATION_PROB c < 0 \<or> 1 < const_MUTATION_PROB c \<or>
      const_STRONG_MUTATION_PROB c < 0 \<or> 1 < const_STRONG_MUTATION_PROB c)"

subsection \<open>A small run\<close>

text \<open>
  Target \<open>AB\<close>, three bees, tournaments of one. The draws make tournament \<open>i\<close> pick
  row \<open>i\<close>, mutate one position of each parent by +1, put the queen first in every
  crossover, and let the mutation of line 121 add 1 to the first position of each child.
\<close>

definition small_config :: config where
  "small_config =
     \<lparr>GOAL = ''AB'', POP_SIZE = 3, MUTATION_PROB = 1 / 2, STRONG_MUTATION_PROB = 1 / 4,
      NUM_TOURNAMENT_PARTICIPANTS = 1\<rparr>"

definition small_raw :: "nat \<Rightarrow> nat \<Rightarrow> nat" where
  "small_raw i j = [[65, 68], [3, 77], [1, 66]] ! i ! j"

definition small_draws :: draws where
  "small_draws =
     \<lparr>contender_randn = (\<lambda>i j. if i = j then 0 else 1),
      strong_mask_randn = (\<lambda>i j. if i = 1 then (if j = 0 then 1 else 0) else of_nat j),
      strong_noise_raw = (\<lambda>i j. 1),
      crossover_randn = (\<lambda>i j. of_nat j),
      mask_randn = (\<lambda>i j. of_nat j),
      noise_raw = (\<lambda>i j. 1)\<rparr>"

definition small_locals1 :: locals where
  "small_locals1 =
     \<lparr>the_queen = ([65, 68], Finite (1 / 4)),
      selection_pool = [[3, 77], [1, 66]],
      selection_fitnesses = [Finite (1 / 3965), Finite (1 / 4096)],
      parents = [[3, 77], [1, 66]],
      mutated_parents = [[4, 77], [1, 67]],
      crossed_pool = [[65, 77], [65, 67]],
      mutated_pool = [[66, 77], [66, 67]],
      clamped_pool = [[65, 77], [65, 67]]\<rparr>"

definition small_state2 :: state where
  "small_state2 = \<lparr>generation = 2, pool = [[65, 77], [65, 67]],
                    queen = Some ([65, 68], Finite (1 / 4))\<rparr>"

definition small_locals2 :: locals where
  "small_locals2 =
     \<lparr>the_queen = ([65, 67], Finite 1),
      selection_pool = [[65, 77], [65, 68]],
      selection_fitnesses = [Finite (1 / 121), Finite (1 / 4)],
      parents = [[65, 77], [65, 68]],
      mutated_parents = [[66, 77], [65, 69]],
      crossed_pool = [[65, 77], [65, 69]],
      mutated_pool = [[66, 77], [66, 69]],
      clamped_pool = [[65, 77], [65, 69]]\<rparr>"

definition small_state3 :: state where
  "small_state3 = \<lparr>generation = 3, pool = [[65, 77], [65, 69]],
                    queen = Some ([65, 67], Finite 1)\<rparr>"

text \<open>An initial population that contains the target.\<close>

definition solved_raw :: "nat \<Rightarrow> nat \<Rightarrow> nat" where
  "solved_raw i j = [[3, 77], [65, 66], [1, 66]] ! i ! j"

text \<open>
  A population with the value 254: the draws raise the second position of each parent to
  255, and the mutation of line 121 adds 1 to the second position of each child.
\<close>

definition high_raw :: "nat \<Rightarrow> nat \<Rightarrow> nat" where
  "high_raw i j = [[65, 68], [3, 254], [1, 254]] ! i ! j"

definition high_draws :: draws where
  "high_draws =
     \<lparr>contender_randn = (\<lambda>i j. if i = j then 0 else 1),
      strong_mask_randn = (\<lambda>i j. if j = 0 then 1 else 0),
      strong_noise_raw = (\<lambda>i j. 1),
      crossover_randn = (\<lambda>i j. of_nat j),
      mask_randn = (\<lambda>i j. if j = 0 then 1 else 0),
      noise_raw = (\<lambda>i j. 1)\<rparr>"

definition high_locals :: locals where
  "high_locals =
     \<lparr>the_queen = ([65, 68], Finite (1 / 4)),
      selection_pool = [[3, 254], [1, 254]],
      selection_fitnesses = [Finite (1 / 39188), Finite (1 / 39440)],
      parents = [[3, 254], [1, 254]],
      mutated_parents = [[3, 255], [1, 255]],
      crossed_pool = [[65, 255], [65, 255]],
      mutated_pool = [[65, 256], [65, 256]],
      clamped_pool = [[65, 255], [65, 255]]\<rparr>"

text \<open>
  Constants that the specification calls configuration errors: three bees with
  tournaments of three, an empty target, tournaments of none, tournaments of minus one,
  one bee, no bee, and a negative number of bees.
\<close>

definition unchecked_constants :: constants where
  "unchecked_constants =
     \<lparr>const_GOAL = ''AB'', const_POP_SIZE = 3, const_MUTATION_PROB = 1 / 2,
      const_STRONG_MUTATION_PROB = 1 / 4, const_NUM_TOURNAMENT_PARTICIPANTS = 3\<rparr>"

definition unchecked_config :: config where
  "unchecked_config =
     \<lparr>GOAL = ''AB'', POP_SIZE = 3, MUTATION_PROB = 1 / 2, STRONG_MUTATION_PROB = 1 / 4,
      NUM_TOURNAMENT_PARTICIPANTS = 3\<rparr>"

definition unchecked_locals :: locals where
  "unchecked_locals =
     \<lparr>the_queen = ([65, 68], Finite (1 / 4)),
      selection_pool = [[3, 77], [1, 66]],
      selection_fitnesses = [Finite (1 / 3965), Finite (1 / 4096)],
      parents = [[3, 77], [3, 77]],
      mutated_parents = [[4, 77], [3, 78]],
      crossed_pool = [[65, 77], [65, 78]],
      mutated_pool = [[66, 77], [66, 78]],
      clamped_pool = [[65, 77], [65, 78]]\<rparr>"

definition empty_constants :: constants where
  "empty_constants = unchecked_constants\<lparr>const_GOAL := [], const_NUM_TOURNAMENT_PARTICIPANTS := 1\<rparr>"

definition no_contender_constants :: constants where
  "no_contender_constants = unchecked_constants\<lparr>const_NUM_TOURNAMENT_PARTICIPANTS := 0\<rparr>"

definition last_dropped_constants :: constants where
  "last_dropped_constants = unchecked_constants\<lparr>const_NUM_TOURNAMENT_PARTICIPANTS := - 1\<rparr>"

definition one_bee_constants :: constants where
  "one_bee_constants = unchecked_constants\<lparr>const_POP_SIZE := 1, const_NUM_TOURNAMENT_PARTICIPANTS := 1\<rparr>"

definition no_bee_constants :: constants where
  "no_bee_constants = unchecked_constants\<lparr>const_POP_SIZE := 0, const_NUM_TOURNAMENT_PARTICIPANTS := 1\<rparr>"

definition negative_constants :: constants where
  "negative_constants = unchecked_constants\<lparr>const_POP_SIZE := - 1, const_NUM_TOURNAMENT_PARTICIPANTS := 1\<rparr>"

text \<open>
  The constants of the script with an initial population of a hundred equal rows.
\<close>

definition script_constants :: constants where
  "script_constants =
     \<lparr>const_GOAL = ''Attention is all you need'', const_POP_SIZE = 100,
      const_MUTATION_PROB = 4 / 100, const_STRONG_MUTATION_PROB = 25 / 100,
      const_NUM_TOURNAMENT_PARTICIPANTS = 25\<rparr>"

definition uniform_raw :: "nat \<Rightarrow> nat \<Rightarrow> nat" where
  "uniform_raw i j = 100"

definition uniform_gene :: gene where
  "uniform_gene = replicate 25 100"

text \<open>Draws that put the mate first in every crossover.\<close>

definition mate_first_draws :: draws where
  "mate_first_draws = small_draws\<lparr>crossover_randn := (\<lambda>i j. if j = 0 then 1 else 0)\<rparr>"

section \<open>Properties\<close>

subsection \<open>Fitness\<close>

lemma square_error_nonneg: "0 \<le> square_error t g"
  unfolding square_error_def by (rule sum_list_nonneg) auto

lemma square_error_zero_iff:
  "length g = length t \<Longrightarrow> square_error t g = 0 \<longleftrightarrow> g = t"
proof (induction g arbitrary: t)
  case Nil
  then show ?case by (simp add: square_error_def)
next
  case (Cons x g)
  then obtain y t' where t: "t = y # t'" and len: "length g = length t'"
    by (cases t) auto
  have nn: "0 \<le> square_error t' g" by (rule square_error_nonneg)
  have split: "square_error (y # t') (x # g) = (x - y)\<^sup>2 + square_error t' g"
    by (simp add: square_error_def)
  have "(x - y)\<^sup>2 + square_error t' g = 0 \<longleftrightarrow> (x - y)\<^sup>2 = 0 \<and> square_error t' g = 0"
    using nn by (simp add: add_nonneg_eq_0_iff)
  then show ?case
    using Cons.IH [OF len] by (simp add: split t)
qed

lemma square_error_sum_nth:
  "length g = length t \<Longrightarrow> square_error t g = (\<Sum>i<length g. (g ! i - t ! i)\<^sup>2)"
proof -
  assume len: "length g = length t"
  have "square_error t g = (\<Sum>i = 0..<length (zip g t). (\<lambda>(x, y). (x - y)\<^sup>2) (zip g t ! i))"
    unfolding square_error_def by (simp add: sum_list_sum_nth)
  also have "\<dots> = (\<Sum>i = 0..<length g. (g ! i - t ! i)\<^sup>2)"
    using len by (intro sum.cong) auto
  finally show ?thesis by (simp add: lessThan_atLeast0)
qed

text \<open>
  With byte-valued genes the sum of squares is at most 65025 per position, far below
  \<open>2^63\<close> for any tensor that fits in memory: the 64-bit sum of line 53 does not wrap.
\<close>

lemma square_difference_bound:
  assumes "0 \<le> x" "x \<le> 255" "0 \<le> y" "y \<le> (255 :: int)"
  shows "(x - y)\<^sup>2 \<le> 65025"
proof -
  have "\<bar>x - y\<bar> \<le> 255" using assms by linarith
  then have "\<bar>x - y\<bar>\<^sup>2 \<le> 255\<^sup>2" by (intro power_mono) simp_all
  then show ?thesis by simp
qed

lemma square_error_no_wrap:
  "byte_gene g \<Longrightarrow> byte_gene t \<Longrightarrow> square_error t g \<le> 65025 * int (length g)"
proof (induction g arbitrary: t)
  case Nil
  then show ?case by (simp add: square_error_def)
next
  case (Cons x g)
  show ?case
  proof (cases t)
    case Nil
    then show ?thesis by (simp add: square_error_def)
  next
    case (Cons y t')
    have "(x - y)\<^sup>2 \<le> 65025"
      using Cons.prems Cons by (intro square_difference_bound) (simp_all add: byte_gene_def)
    moreover have "square_error t' g \<le> 65025 * int (length g)"
      using Cons.prems Cons by (intro Cons.IH) (simp_all add: byte_gene_def)
    moreover have "square_error t (x # g) = (x - y)\<^sup>2 + square_error t' g"
      by (simp add: square_error_def Cons)
    ultimately show ?thesis by simp
  qed
qed

text \<open>
  C3. For a genome and a target of equal length the fitness is 1 over the sum of the
  squared differences: it is the infinite value exactly when the genome equals the
  target position by position, and a finite positive number in every other case.
\<close>

theorem fitness_inverse_square_error:
  "length g = length t \<Longrightarrow>
     (fitness_of t g = Infinity \<longleftrightarrow> g = t) \<and>
     (g \<noteq> t \<longrightarrow> fitness_of t g = Finite (1 / of_int (\<Sum>i<length g. (g ! i - t ! i)\<^sup>2))
        \<and> 0 < 1 / (of_int (\<Sum>i<length g. (g ! i - t ! i)\<^sup>2) :: rat))"
proof -
  assume len: "length g = length t"
  define S where "S = (\<Sum>i<length g. (g ! i - t ! i)\<^sup>2)"
  have idx: "square_error t g = S"
    using len by (simp add: square_error_sum_nth S_def)
  have zero: "square_error t g = 0 \<longleftrightarrow> g = t"
    using len by (rule square_error_zero_iff)
  have pos: "g \<noteq> t \<Longrightarrow> 0 < square_error t g"
    using zero square_error_nonneg [of t g] by linarith
  have "(fitness_of t g = Infinity \<longleftrightarrow> g = t) \<and>
     (g \<noteq> t \<longrightarrow> fitness_of t g = Finite (1 / of_int S) \<and> 0 < 1 / (of_int S :: rat))"
    using zero pos idx by (auto simp: fitness_of_def float_div_one_def)
  then show ?thesis
    unfolding S_def .
qed

theorem fitness_inverse_square_error_witness:
  "length [65, 67 :: int] = length [65, 66 :: int] \<and>
   fitness_of [65, 66] [65, 67] = Finite 1 \<and> fitness_of [65, 66] [65, 66] = Infinity"
  using fitness_inverse_square_error [of "[65, 67]" "[65, 66]"]
    fitness_inverse_square_error [of "[65, 66]" "[65, 66]"]
  by (simp add: lessThan_Suc numeral_2_eq_2)

subsection \<open>Order of fitnesses and sorting\<close>

lemma fit_le_iff_not_less: "fit_le a b \<longleftrightarrow> \<not> fit_less b a"
  by (cases a; cases b) auto

lemma fit_le_refl: "fit_le a a"
  by (cases a) auto

lemma fit_le_trans: "fit_le a b \<Longrightarrow> fit_le b c \<Longrightarrow> fit_le a c"
  by (cases a; cases b; cases c) auto

lemma fit_less_imp_le: "fit_less a b \<Longrightarrow> fit_le a b"
  by (cases a; cases b) auto

lemma fit_less_asym: "fit_less a b \<Longrightarrow> \<not> fit_less b a"
  by (cases a; cases b) auto

lemma fit_le_Infinity: "fit_le Infinity a \<longleftrightarrow> a = Infinity"
  by (cases a) auto

lemma mset_insort_idx: "mset (insort_idx prec i js) = add_mset i (mset js)"
  by (induction js) auto

lemma mset_foldr_insort_idx: "mset (foldr (insort_idx prec) xs []) = mset xs"
  by (induction xs) (auto simp: mset_insort_idx)

lemma mset_argsort_by: "mset (argsort_by prec n) = mset [0..<n]"
  unfolding argsort_by_def by (rule mset_foldr_insort_idx)

lemma set_argsort_by: "set (argsort_by prec n) = {0..<n}"
  using mset_argsort_by [of prec n, THEN mset_eq_setD] by simp

lemma length_argsort_by: "length (argsort_by prec n) = n"
  using mset_argsort_by [of prec n, THEN mset_eq_length] by simp

lemma set_insort_idx: "set (insort_idx prec i js) = insert i (set js)"
  by (induction js) auto

lemma sorted_wrt_insort_idx:
  assumes tr: "\<And>a b c. \<not> prec b a \<Longrightarrow> \<not> prec c b \<Longrightarrow> \<not> prec c a"
    and asym: "\<And>a b. prec a b \<Longrightarrow> \<not> prec b a"
  shows "sorted_wrt (\<lambda>a c. \<not> prec c a) js \<Longrightarrow> sorted_wrt (\<lambda>a c. \<not> prec c a) (insort_idx prec i js)"
proof (induction js)
  case Nil
  then show ?case by simp
next
  case (Cons j js)
  show ?case
  proof (cases "prec j i")
    case True
    then have "\<not> prec i j" by (rule asym)
    with True Cons show ?thesis by (auto simp: set_insort_idx)
  next
    case False
    have "\<not> prec x i" if "x \<in> set js" for x
    proof -
      from that Cons.prems have "\<not> prec x j" by simp
      with False show ?thesis by (rule tr)
    qed
    with False Cons.prems show ?thesis by auto
  qed
qed

lemma sorted_wrt_argsort_by:
  assumes tr: "\<And>a b c. \<not> prec b a \<Longrightarrow> \<not> prec c b \<Longrightarrow> \<not> prec c a"
    and asym: "\<And>a b. prec a b \<Longrightarrow> \<not> prec b a"
  shows "sorted_wrt (\<lambda>a c. \<not> prec c a) (argsort_by prec n)"
proof -
  have "sorted_wrt (\<lambda>a c. \<not> prec c a) (foldr (insort_idx prec) xs [])" for xs
    by (induction xs) (auto intro: sorted_wrt_insort_idx [OF tr asym])
  then show ?thesis by (simp add: argsort_by_def)
qed

lemma set_argsort: "set (argsort keys) = {0..<length keys}"
  by (simp add: argsort_def set_argsort_by)

lemma length_argsort: "length (argsort keys) = length keys"
  by (simp add: argsort_def length_argsort_by)

lemma mset_argsort: "mset (argsort keys) = mset [0..<length keys]"
  by (simp add: argsort_def mset_argsort_by)

lemma mset_sort_descending_indices:
  "mset (sort_descending_indices fs) = mset [0..<length fs]"
  by (simp add: sort_descending_indices_def mset_argsort_by)

lemma sorted_sort_descending_indices:
  "sorted_descending (map (\<lambda>i. fs ! i) (sort_descending_indices fs))"
proof -
  let ?prec = "\<lambda>j i. fit_less (fs ! i) (fs ! j)"
  have "sorted_wrt (\<lambda>a c. \<not> ?prec c a) (argsort_by ?prec (length fs))"
  proof (rule sorted_wrt_argsort_by)
    fix a b c
    assume "\<not> fit_less (fs ! a) (fs ! b)" "\<not> fit_less (fs ! b) (fs ! c)"
    then show "\<not> fit_less (fs ! a) (fs ! c)"
      using fit_le_trans [of "fs ! c" "fs ! b" "fs ! a"] by (simp add: fit_le_iff_not_less)
  next
    fix a b
    assume "fit_less (fs ! b) (fs ! a)"
    then show "\<not> fit_less (fs ! a) (fs ! b)" by (rule fit_less_asym)
  qed
  then show ?thesis
    by (simp add: sorted_descending_def sort_descending_indices_def sorted_wrt_map
        fit_le_iff_not_less)
qed

lemma mset_map_nth_perm:
  assumes "mset is = mset [0..<length xs]"
  shows "mset (map (\<lambda>i. xs ! i) is) = mset xs"
proof -
  have "mset (map (\<lambda>i. xs ! i) is) = image_mset (\<lambda>i. xs ! i) (mset is)" by simp
  also have "\<dots> = image_mset (\<lambda>i. xs ! i) (mset [0..<length xs])" by (simp only: assms)
  also have "\<dots> = mset (map (\<lambda>i. xs ! i) [0..<length xs])" by simp
  also have "\<dots> = mset xs" by (simp only: map_nth)
  finally show ?thesis .
qed

lemma evaluate_props:
  assumes "evaluate cfg p = (p1, fs1)"
  shows "fs1 = map (fitness_of (target_gene cfg)) p1"
    and "sorted_descending fs1"
    and "mset p1 = mset p"
proof -
  let ?fs = "map (fitness_of (target_gene cfg)) p"
  let ?is = "sort_descending_indices ?fs"
  have p1: "p1 = map (\<lambda>i. p ! i) ?is" and fs1: "fs1 = map (\<lambda>i. ?fs ! i) ?is"
    using assms by (simp_all add: evaluate_def Let_def)
  have perm: "mset ?is = mset [0..<length p]"
    using mset_sort_descending_indices [of ?fs] by simp
  then have "set ?is = {0..<length p}"
    using mset_eq_setD by fastforce
  then show "fs1 = map (fitness_of (target_gene cfg)) p1"
    by (simp add: p1 fs1)
  show "sorted_descending fs1"
    unfolding fs1 by (rule sorted_sort_descending_indices)
  show "mset p1 = mset p"
    unfolding p1 using perm by (rule mset_map_nth_perm)
qed

subsection \<open>The body of the loop, phase by phase\<close>

lemma generation_body_NextE:
  assumes "generation_body cfg d s = Inr (Next l)"
  obtains p1 fs1 q2 p2 fs2 q3 p3 fs3 ps where
    "\<forall>g \<in> set (pool s). length g = gene_length cfg"
    "evaluate cfg (pool s) = (p1, fs1)"
    "Infinity \<notin> set fs1"
    "demote (queen s) p1 fs1 = Inr (q2, p2, fs2)"
    "separate q2 p2 fs2 = Inr (q3, p3, fs3)"
    "tournament cfg d p3 fs3 = Inr ps"
    "l = \<lparr>the_queen = q3, selection_pool = p3, selection_fitnesses = fs3, parents = ps,
          mutated_parents = strong_mutate cfg d ps,
          crossed_pool = crossover cfg d (fst q3) (strong_mutate cfg d ps),
          mutated_pool = mutate cfg d (crossover cfg d (fst q3) (strong_mutate cfg d ps)),
          clamped_pool =
            map (map (clamp 0 255)) (crossover cfg d (fst q3) (strong_mutate cfg d ps))\<rparr>"
  using assms unfolding generation_body_def
  by (auto simp: Let_def split: if_splits prod.splits sum.splits)

lemma generation_body_Solved_iff:
  "generation_body cfg d s = Inr (Solved p fs) \<longleftrightarrow>
     (\<forall>g \<in> set (pool s). length g = gene_length cfg) \<and>
     evaluate cfg (pool s) = (p, fs) \<and> Infinity \<in> set fs"
  unfolding generation_body_def
  by (auto simp: Let_def split: if_splits prod.splits sum.splits)

lemma selection_cases:
  assumes dm: "demote q p1 fs1 = Inr (q2, p2, fs2)"
    and sp: "separate q2 p2 fs2 = Inr (q3, p3, fs3)"
    and len: "length fs1 = length p1"
  shows "(q = None \<and> p1 = fst q3 # p3 \<and> fs1 = snd q3 # fs3) \<or>
         (\<exists>f0 fs'. q = Some q3 \<and> fs1 = f0 # fs' \<and> \<not> fit_less (snd q3) f0 \<and>
            p3 = p1 \<and> fs3 = fs1) \<or>
         (\<exists>qg qf p' fs'. q = Some (qg, qf) \<and> p1 = fst q3 # p' \<and> fs1 = snd q3 # fs' \<and>
            fit_less qf (snd q3) \<and> p3 = p' @ [qg] \<and> fs3 = fs' @ [qf])"
proof (cases q)
  case None
  with dm have "q2 = None" "p2 = p1" "fs2 = fs1" by (simp_all add: demote_def)
  with sp None show ?thesis
    by (auto simp: separate_def split: list.splits)
next
  case (Some qq)
  obtain qg qf where qq: "qq = (qg, qf)" by (cases qq)
  from dm Some qq obtain f0 fs' where fs1: "fs1 = f0 # fs'"
    by (cases fs1) (auto simp: demote_def)
  with len obtain g p' where p1: "p1 = g # p'" by (cases p1) auto
  show ?thesis
  proof (cases "fit_less qf f0")
    case True
    with dm Some qq fs1 have "q2 = None" "p2 = p1 @ [qg]" "fs2 = fs1 @ [qf]"
      by (simp_all add: demote_def)
    with sp fs1 p1 True Some qq show ?thesis
      by (auto simp: separate_def)
  next
    case False
    with dm Some qq fs1 have "q2 = Some (qg, qf)" "p2 = p1" "fs2 = fs1"
      by (simp_all add: demote_def)
    with sp fs1 False Some qq show ?thesis
      by (auto simp: separate_def)
  qed
qed

lemma sorted_descending_Cons:
  "sorted_descending (f # fs) \<longleftrightarrow> (\<forall>x \<in> set fs. fit_le x f) \<and> sorted_descending fs"
  by (simp add: sorted_descending_def)

lemma argsort_take_bound:
  "c \<in> set (take k (argsort keys)) \<Longrightarrow> c < length keys"
  using set_argsort [of keys] by (auto dest: in_set_takeD)

lemma topk1_less: "fs \<noteq> [] \<Longrightarrow> topk1 fs < length fs"
proof -
  assume ne: "fs \<noteq> []"
  have len: "length (sort_descending_indices fs) = length fs"
    by (simp add: sort_descending_indices_def length_argsort_by)
  with ne have "sort_descending_indices fs \<noteq> []" by auto
  then have "hd (sort_descending_indices fs) \<in> set (sort_descending_indices fs)"
    by (rule hd_in_set)
  then show ?thesis
    by (simp add: topk1_def sort_descending_indices_def set_argsort_by)
qed

lemma length_contender_ids: "length (contender_ids cfg d) = POP_SIZE cfg - 1"
  by (simp add: contender_ids_def)

lemma contender_ids_row:
  assumes "row \<in> set (contender_ids cfg d)"
  shows "length row = min (NUM_TOURNAMENT_PARTICIPANTS cfg) (POP_SIZE cfg - 1)"
    and "\<forall>c \<in> set row. c < POP_SIZE cfg - 1"
  using assms by (auto simp: contender_ids_def length_argsort dest: argsort_take_bound)

lemma tournament_props:
  assumes "tournament cfg d p fs = Inr ps"
  shows "length ps = POP_SIZE cfg - 1" and "set ps \<subseteq> set p"
proof -
  have ok: "\<forall>row \<in> set (contender_ids cfg d). \<forall>c \<in> set row. c < length p"
    and k: "min (NUM_TOURNAMENT_PARTICIPANTS cfg) (POP_SIZE cfg - 1) \<noteq> 0"
    and ps: "ps = map (\<lambda>row. map (\<lambda>c. p ! c) row ! topk1 (map (\<lambda>c. fs ! c) row))
                    (contender_ids cfg d)"
    using assms by (auto simp: tournament_def Let_def not_le split: if_splits)
  show "length ps = POP_SIZE cfg - 1"
    by (simp add: ps length_contender_ids)
  show "set ps \<subseteq> set p"
  proof
    fix g assume "g \<in> set ps"
    then obtain row where row: "row \<in> set (contender_ids cfg d)"
      and g: "g = map (\<lambda>c. p ! c) row ! topk1 (map (\<lambda>c. fs ! c) row)"
      by (auto simp: ps)
    from row k have ne: "row \<noteq> []"
      using contender_ids_row(1) [OF row] by auto
    then have t: "topk1 (map (\<lambda>c. fs ! c) row) < length row"
      using topk1_less [of "map (\<lambda>c. fs ! c) row"] by simp
    then have "g = p ! (row ! topk1 (map (\<lambda>c. fs ! c) row))"
      by (simp add: g)
    moreover have "row ! topk1 (map (\<lambda>c. fs ! c) row) \<in> set row"
      using t by (rule nth_mem)
    then have "row ! topk1 (map (\<lambda>c. fs ! c) row) < length p"
      using ok row by blast
    ultimately show "g \<in> set p" by simp
  qed
qed

lemma tournament_no_error:
  assumes "length p = POP_SIZE cfg - 1" "2 \<le> POP_SIZE cfg" "1 \<le> NUM_TOURNAMENT_PARTICIPANTS cfg"
  shows "\<exists>ps. tournament cfg d p fs = Inr ps"
proof -
  have "\<not> (\<exists>row \<in> set (contender_ids cfg d). \<exists>c \<in> set row. length p \<le> c)"
    using assms(1) contender_ids_row(2) [of _ cfg d] by fastforce
  with assms show ?thesis
    by (simp add: tournament_def)
qed

subsection \<open>Mutation and crossover\<close>

lemma randint_bounds: "low < high \<Longrightarrow> low \<le> randint low high r \<and> randint low high r < high"
proof -
  assume "low < high"
  then have "0 \<le> int r mod (high - low)" "int r mod (high - low) < high - low"
    by simp_all
  then show ?thesis by (simp add: randint_def)
qed

lemma clamp_bounds: "0 \<le> clamp 0 255 x \<and> clamp 0 255 x \<le> 255"
  by (simp add: clamp_def)

lemma clamp_id: "0 \<le> x \<Longrightarrow> x \<le> 255 \<Longrightarrow> clamp 0 255 x = x"
  by (simp add: clamp_def)

lemma byte_gene_clamp: "byte_gene (map (clamp 0 255) g)"
  by (simp add: byte_gene_def clamp_def)

lemma map_clamp_id: "byte_gene g \<Longrightarrow> map (clamp 0 255) g = g"
  by (induction g) (auto simp: byte_gene_def clamp_def)

lemma length_mutate_mask: "length (mutate_mask threshold randn n) = n"
  by (simp add: mutate_mask_def length_argsort)

lemma length_sign_noise: "length (sign_noise raw n) = n"
  by (simp add: sign_noise_def)

lemma sign_noise_nth: "j < n \<Longrightarrow> sign_noise raw n ! j = 1 \<or> sign_noise raw n ! j = - 1"
proof -
  assume "j < n"
  have "int (raw j) mod 2 = 0 \<or> int (raw j) mod 2 = 1" by presburger
  with \<open>j < n\<close> show ?thesis by (auto simp: sign_noise_def randint_def)
qed

lemma length_where_add: "length (where_add msk g noise) = length g"
  by (simp add: where_add_def)

lemma where_add_nth:
  "j < length g \<Longrightarrow>
     where_add msk g noise ! j = (if msk ! j then g ! j + noise ! j else g ! j)"
  by (simp add: where_add_def)

lemma length_strong_mutate_row: "length (strong_mutate_row cfg d i g) = length g"
  by (simp add: strong_mutate_row_def Let_def length_where_add)

lemma byte_gene_strong_mutate_row: "byte_gene (strong_mutate_row cfg d i g)"
  by (simp add: strong_mutate_row_def Let_def byte_gene_clamp)

lemma length_strong_mutate: "length (strong_mutate cfg d ps) = length ps"
  by (simp add: strong_mutate_def)

lemma strong_mutate_nth:
  "i < length ps \<Longrightarrow> strong_mutate cfg d ps ! i = strong_mutate_row cfg d i (ps ! i)"
  by (simp add: strong_mutate_def)

lemma filter_less_upt: "filter (\<lambda>r. r < m) [0..<n] = [0..<min n m]"
proof (induction n)
  case 0
  then show ?case by simp
next
  case (Suc n)
  show ?case
  proof (cases "n < m")
    case True
    then have "min (Suc n) m = Suc (min n m)" "min n m = n" by auto
    with Suc True show ?thesis by simp
  next
    case False
    then have "min (Suc n) m = min n m" by auto
    with Suc False show ?thesis by simp
  qed
qed

lemma rank_below_threshold: "(of_nat r < (threshold :: rat)) \<longleftrightarrow> r < nat \<lceil>threshold\<rceil>"
proof -
  have "(of_nat r < threshold) \<longleftrightarrow> (of_int (int r) < threshold)" by simp
  also have "\<dots> \<longleftrightarrow> int r < \<lceil>threshold\<rceil>" by (simp only: less_ceiling_iff)
  also have "\<dots> \<longleftrightarrow> r < nat \<lceil>threshold\<rceil>" by auto
  finally show ?thesis .
qed

lemma mutate_mask_count:
  "length (filter (\<lambda>b. b) (mutate_mask threshold randn n)) = min n (nat \<lceil>threshold\<rceil>)"
proof -
  let ?P = "\<lambda>r. (of_nat r :: rat) < threshold"
  let ?is = "argsort (map randn [0..<n])"
  have perm: "mset ?is = mset [0..<n]"
    using mset_argsort [of "map randn [0..<n]"] by simp
  have "length (filter (\<lambda>b. b) (mutate_mask threshold randn n)) = length (filter ?P ?is)"
    by (simp add: mutate_mask_def filter_map comp_def)
  also have "\<dots> = size (filter_mset ?P (mset ?is))"
    by (simp only: mset_filter [symmetric] size_mset)
  also have "\<dots> = size (filter_mset ?P (mset [0..<n]))"
    by (simp only: perm)
  also have "\<dots> = length (filter ?P [0..<n])"
    by (simp only: mset_filter [symmetric] size_mset)
  also have "\<dots> = length (filter (\<lambda>r. r < nat \<lceil>threshold\<rceil>) [0..<n])"
    by (simp only: rank_below_threshold)
  also have "\<dots> = min n (nat \<lceil>threshold\<rceil>)"
    by (simp add: filter_less_upt)
  finally show ?thesis .
qed

lemma argsort_pair: "argsort [a, b] = (if b < a then [1, 0] else [0, 1])"
  by (simp add: argsort_def argsort_by_def)

lemma crossover_row_eq:
  "crossover_row cfg d i q m =
     (if crossover_randn d i 1 < crossover_randn d i 0
      then take (gene_midpoint cfg) m @ drop (gene_midpoint cfg) q
      else take (gene_midpoint cfg) q @ drop (gene_midpoint cfg) m)"
proof -
  have "[0..<2] = [0, 1]" by (simp add: upt_rec)
  then show ?thesis
    by (simp add: crossover_row_def Let_def argsort_pair)
qed

lemma length_crossover: "length (crossover cfg d q mps) = POP_SIZE cfg - 1"
  by (simp add: crossover_def)

lemma crossover_nth:
  "i < POP_SIZE cfg - 1 \<Longrightarrow> crossover cfg d q mps ! i = crossover_row cfg d i q (mps ! i)"
  by (simp add: crossover_def)

lemma length_crossover_row:
  "length q = n \<Longrightarrow> length m = n \<Longrightarrow> length (crossover_row cfg d i q m) = n"
  by (auto simp: crossover_row_eq gene_midpoint_def)

lemma set_crossover_row: "set (crossover_row cfg d i q m) \<subseteq> set q \<union> set m"
  by (auto simp: crossover_row_eq dest: in_set_takeD in_set_dropD)

subsection \<open>One iteration from a well-formed state\<close>

lemma generation_body_Next_facts:
  assumes "generation_body cfg d s = Inr (Next l)"
  shows "\<exists>p1 fs1.
      evaluate cfg (pool s) = (p1, fs1) \<and> Infinity \<notin> set fs1 \<and>
      ((queen s = None \<and> p1 = fst (the_queen l) # selection_pool l \<and>
          fs1 = snd (the_queen l) # selection_fitnesses l) \<or>
       (\<exists>f0 fs'. queen s = Some (the_queen l) \<and> fs1 = f0 # fs' \<and>
          \<not> fit_less (snd (the_queen l)) f0 \<and> selection_pool l = p1 \<and>
          selection_fitnesses l = fs1) \<or>
       (\<exists>qg qf p' fs'. queen s = Some (qg, qf) \<and> p1 = fst (the_queen l) # p' \<and>
          fs1 = snd (the_queen l) # fs' \<and> fit_less qf (snd (the_queen l)) \<and>
          selection_pool l = p' @ [qg] \<and> selection_fitnesses l = fs' @ [qf]))"
    and "tournament cfg d (selection_pool l) (selection_fitnesses l) = Inr (parents l)"
    and "mutated_parents l = strong_mutate cfg d (parents l)"
    and "crossed_pool l = crossover cfg d (fst (the_queen l)) (mutated_parents l)"
    and "mutated_pool l = mutate cfg d (crossed_pool l)"
    and "clamped_pool l = map (map (clamp 0 255)) (crossed_pool l)"
proof -
  from assms obtain p1 fs1 q2 p2 fs2 q3 p3 fs3 ps where
    ev: "evaluate cfg (pool s) = (p1, fs1)" and ninf: "Infinity \<notin> set fs1"
    and dm: "demote (queen s) p1 fs1 = Inr (q2, p2, fs2)"
    and sp: "separate q2 p2 fs2 = Inr (q3, p3, fs3)"
    and tn: "tournament cfg d p3 fs3 = Inr ps"
    and l: "l = \<lparr>the_queen = q3, selection_pool = p3, selection_fitnesses = fs3, parents = ps,
          mutated_parents = strong_mutate cfg d ps,
          crossed_pool = crossover cfg d (fst q3) (strong_mutate cfg d ps),
          mutated_pool = mutate cfg d (crossover cfg d (fst q3) (strong_mutate cfg d ps)),
          clamped_pool =
            map (map (clamp 0 255)) (crossover cfg d (fst q3) (strong_mutate cfg d ps))\<rparr>"
    by (rule generation_body_NextE)
  have len: "length fs1 = length p1"
    using evaluate_props(1) [OF ev] by simp
  show "\<exists>p1 fs1.
      evaluate cfg (pool s) = (p1, fs1) \<and> Infinity \<notin> set fs1 \<and>
      ((queen s = None \<and> p1 = fst (the_queen l) # selection_pool l \<and>
          fs1 = snd (the_queen l) # selection_fitnesses l) \<or>
       (\<exists>f0 fs'. queen s = Some (the_queen l) \<and> fs1 = f0 # fs' \<and>
          \<not> fit_less (snd (the_queen l)) f0 \<and> selection_pool l = p1 \<and>
          selection_fitnesses l = fs1) \<or>
       (\<exists>qg qf p' fs'. queen s = Some (qg, qf) \<and> p1 = fst (the_queen l) # p' \<and>
          fs1 = snd (the_queen l) # fs' \<and> fit_less qf (snd (the_queen l)) \<and>
          selection_pool l = p' @ [qg] \<and> selection_fitnesses l = fs' @ [qf]))"
    using selection_cases [OF dm sp len] ev ninf by (simp add: l)
  show "tournament cfg d (selection_pool l) (selection_fitnesses l) = Inr (parents l)"
    using tn by (simp add: l)
  show "mutated_parents l = strong_mutate cfg d (parents l)" by (simp add: l)
  show "crossed_pool l = crossover cfg d (fst (the_queen l)) (mutated_parents l)"
    by (simp add: l)
  show "mutated_pool l = mutate cfg d (crossed_pool l)" by (simp add: l)
  show "clamped_pool l = map (map (clamp 0 255)) (crossed_pool l)" by (simp add: l)
qed

lemma well_formed_poolD:
  "well_formed cfg s \<Longrightarrow> g \<in> set (pool s) \<Longrightarrow> length g = gene_length cfg \<and> byte_gene g"
  by (simp add: well_formed_def)

lemma well_formed_queenD:
  assumes "well_formed cfg s" "queen s = Some (q, f)"
  shows "length (pool s) = POP_SIZE cfg - 1" and "length q = gene_length cfg"
    and "byte_gene q" and "f = fitness_of (target_gene cfg) q"
    and "fitness_of (target_gene cfg) q \<noteq> Infinity"
  using assms by (auto simp: well_formed_def)

lemma well_formed_no_queenD:
  "well_formed cfg s \<Longrightarrow> queen s = None \<Longrightarrow> length (pool s) = POP_SIZE cfg"
  by (simp add: well_formed_def)

lemma selection_well_formed:
  assumes wf: "well_formed cfg s" and body: "generation_body cfg d s = Inr (Next l)"
  shows "length (selection_pool l) = POP_SIZE cfg - 1"
    and "selection_fitnesses l = map (fitness_of (target_gene cfg)) (selection_pool l)"
    and "snd (the_queen l) = fitness_of (target_gene cfg) (fst (the_queen l))"
    and "snd (the_queen l) \<noteq> Infinity"
    and "length (fst (the_queen l)) = gene_length cfg \<and> byte_gene (fst (the_queen l))"
    and "\<forall>g \<in> set (selection_pool l). length g = gene_length cfg \<and> byte_gene g"
proof -
  from generation_body_Next_facts(1) [OF body] obtain p1 fs1 where
    ev: "evaluate cfg (pool s) = (p1, fs1)" and ninf: "Infinity \<notin> set fs1"
    and cases: "(queen s = None \<and> p1 = fst (the_queen l) # selection_pool l \<and>
          fs1 = snd (the_queen l) # selection_fitnesses l) \<or>
       (\<exists>f0 fs'. queen s = Some (the_queen l) \<and> fs1 = f0 # fs' \<and>
          \<not> fit_less (snd (the_queen l)) f0 \<and> selection_pool l = p1 \<and>
          selection_fitnesses l = fs1) \<or>
       (\<exists>qg qf p' fs'. queen s = Some (qg, qf) \<and> p1 = fst (the_queen l) # p' \<and>
          fs1 = snd (the_queen l) # fs' \<and> fit_less qf (snd (the_queen l)) \<and>
          selection_pool l = p' @ [qg] \<and> selection_fitnesses l = fs' @ [qf])"
    by blast
  note al = evaluate_props(1) [OF ev]
  have ms: "mset p1 = mset (pool s)" by (rule evaluate_props(3) [OF ev])
  have setp: "set p1 = set (pool s)" using ms by (rule mset_eq_setD)
  have lenp: "length p1 = length (pool s)" using ms by (rule mset_eq_length)
  have p1ok: "\<forall>g \<in> set p1. length g = gene_length cfg \<and> byte_gene g"
    using wf setp by (simp add: well_formed_def)
  from cases consider
    (first) "queen s = None" "p1 = fst (the_queen l) # selection_pool l"
      "fs1 = snd (the_queen l) # selection_fitnesses l"
    | (kept) "queen s = Some (the_queen l)" "selection_pool l = p1" "selection_fitnesses l = fs1"
    | (demoted) qg qf p' fs' where "queen s = Some (qg, qf)" "p1 = fst (the_queen l) # p'"
      "fs1 = snd (the_queen l) # fs'" "selection_pool l = p' @ [qg]"
      "selection_fitnesses l = fs' @ [qf]"
    by (elim disjE exE conjE) blast+
  then have "length (selection_pool l) = POP_SIZE cfg - 1 \<and>
    selection_fitnesses l = map (fitness_of (target_gene cfg)) (selection_pool l) \<and>
    snd (the_queen l) = fitness_of (target_gene cfg) (fst (the_queen l)) \<and>
    snd (the_queen l) \<noteq> Infinity \<and>
    (length (fst (the_queen l)) = gene_length cfg \<and> byte_gene (fst (the_queen l))) \<and>
    (\<forall>g \<in> set (selection_pool l). length g = gene_length cfg \<and> byte_gene g)"
  proof cases
    case first
    have "length (pool s) = POP_SIZE cfg"
      using wf first(1) by (rule well_formed_no_queenD)
    with lenp first(2) have "length (selection_pool l) = POP_SIZE cfg - 1"
      by (metis diff_Suc_1 length_Cons)
    moreover have "selection_fitnesses l = map (fitness_of (target_gene cfg)) (selection_pool l)"
      "snd (the_queen l) = fitness_of (target_gene cfg) (fst (the_queen l))"
      using al unfolding first(2) first(3) by simp_all
    moreover have "snd (the_queen l) \<noteq> Infinity"
      using ninf unfolding first(3) by auto
    moreover have "(length (fst (the_queen l)) = gene_length cfg \<and> byte_gene (fst (the_queen l)))"
      "(\<forall>g \<in> set (selection_pool l). length g = gene_length cfg \<and> byte_gene g)"
      using p1ok unfolding first(2) by simp_all
    ultimately show ?thesis by blast
  next
    case kept
    obtain q f where qf: "the_queen l = (q, f)" by (cases "the_queen l")
    from well_formed_queenD [OF wf kept(1) [unfolded qf]]
    show ?thesis
      using kept(2,3) lenp al p1ok by (simp add: qf)
  next
    case demoted
    note wq = well_formed_queenD [OF wf demoted(1)]
    have "length p' = POP_SIZE cfg - 1 - 1"
      using lenp wq unfolding demoted(2) by simp
    moreover have "POP_SIZE cfg - 1 \<noteq> 0"
      using lenp wq unfolding demoted(2) by auto
    ultimately have "length (selection_pool l) = POP_SIZE cfg - 1"
      unfolding demoted(4) by simp
    moreover have "selection_fitnesses l = map (fitness_of (target_gene cfg)) (selection_pool l)"
      "snd (the_queen l) = fitness_of (target_gene cfg) (fst (the_queen l))"
      using al wq unfolding demoted by simp_all
    moreover have "snd (the_queen l) \<noteq> Infinity"
      using ninf unfolding demoted(3) by auto
    moreover have "(length (fst (the_queen l)) = gene_length cfg \<and> byte_gene (fst (the_queen l)))"
      "(\<forall>g \<in> set (selection_pool l). length g = gene_length cfg \<and> byte_gene g)"
      using p1ok wq unfolding demoted(2) demoted(4) by simp_all
    ultimately show ?thesis by blast
  qed
  then show "length (selection_pool l) = POP_SIZE cfg - 1"
    and "selection_fitnesses l = map (fitness_of (target_gene cfg)) (selection_pool l)"
    and "snd (the_queen l) = fitness_of (target_gene cfg) (fst (the_queen l))"
    and "snd (the_queen l) \<noteq> Infinity"
    and "length (fst (the_queen l)) = gene_length cfg \<and> byte_gene (fst (the_queen l))"
    and "\<forall>g \<in> set (selection_pool l). length g = gene_length cfg \<and> byte_gene g"
    by blast+
qed

lemma initial_pool_range:
  assumes "g \<in> set (pool (initial_state cfg raw))" "v \<in> set g"
  shows "0 \<le> v \<and> v \<le> 254"
proof -
  from assms obtain r where "v = randint 0 255 r"
    by (auto simp: initial_state_def)
  then show ?thesis
    using randint_bounds [of 0 255 r] by simp
qed

lemma initial_well_formed: "well_formed cfg (initial_state cfg raw)"
proof -
  have "byte_gene g" if "g \<in> set (pool (initial_state cfg raw))" for g
    using initial_pool_range [OF that] by (fastforce simp: byte_gene_def)
  moreover have "length g = gene_length cfg" if "g \<in> set (pool (initial_state cfg raw))" for g
    using that by (auto simp: initial_state_def)
  moreover have "queen (initial_state cfg raw) = None"
    "length (pool (initial_state cfg raw)) = POP_SIZE cfg"
    by (simp_all add: initial_state_def)
  ultimately show ?thesis
    by (simp add: well_formed_def)
qed

lemma parents_well_formed:
  assumes wf: "well_formed cfg s" and body: "generation_body cfg d s = Inr (Next l)"
  shows "length (parents l) = POP_SIZE cfg - 1"
    and "set (parents l) \<subseteq> set (selection_pool l)"
    and "\<forall>g \<in> set (parents l). length g = gene_length cfg \<and> byte_gene g"
proof -
  note tn = generation_body_Next_facts(2) [OF body]
  show "length (parents l) = POP_SIZE cfg - 1" by (rule tournament_props(1) [OF tn])
  show sub: "set (parents l) \<subseteq> set (selection_pool l)" by (rule tournament_props(2) [OF tn])
  show "\<forall>g \<in> set (parents l). length g = gene_length cfg \<and> byte_gene g"
    using sub selection_well_formed(6) [OF wf body] by blast
qed

lemma mutated_parents_well_formed:
  assumes wf: "well_formed cfg s" and body: "generation_body cfg d s = Inr (Next l)"
    and i: "i < POP_SIZE cfg - 1"
  shows "mutated_parents l ! i = strong_mutate_row cfg d i (parents l ! i)"
    and "length (mutated_parents l ! i) = gene_length cfg"
    and "byte_gene (mutated_parents l ! i)"
proof -
  have len: "i < length (parents l)"
    using i parents_well_formed(1) [OF wf body] by simp
  then have "parents l ! i \<in> set (parents l)" by (rule nth_mem)
  then have pl: "length (parents l ! i) = gene_length cfg"
    using parents_well_formed(3) [OF wf body] by blast
  show eq: "mutated_parents l ! i = strong_mutate_row cfg d i (parents l ! i)"
    using len by (simp add: generation_body_Next_facts(3) [OF body] strong_mutate_nth)
  show "length (mutated_parents l ! i) = gene_length cfg"
    by (simp add: eq length_strong_mutate_row pl)
  show "byte_gene (mutated_parents l ! i)"
    by (simp add: eq byte_gene_strong_mutate_row)
qed

lemma crossed_pool_well_formed:
  assumes wf: "well_formed cfg s" and body: "generation_body cfg d s = Inr (Next l)"
  shows "length (crossed_pool l) = POP_SIZE cfg - 1"
    and "i < POP_SIZE cfg - 1 \<Longrightarrow>
      crossed_pool l ! i = crossover_row cfg d i (fst (the_queen l)) (mutated_parents l ! i)"
    and "\<forall>c \<in> set (crossed_pool l). length c = gene_length cfg \<and> byte_gene c"
proof -
  note cp = generation_body_Next_facts(4) [OF body]
  show len: "length (crossed_pool l) = POP_SIZE cfg - 1"
    by (simp add: cp length_crossover)
  show nth: "crossed_pool l ! i = crossover_row cfg d i (fst (the_queen l)) (mutated_parents l ! i)"
    if "i < POP_SIZE cfg - 1" for i
    using that by (simp add: cp crossover_nth)
  show "\<forall>c \<in> set (crossed_pool l). length c = gene_length cfg \<and> byte_gene c"
  proof
    fix c assume "c \<in> set (crossed_pool l)"
    then obtain i where i: "i < POP_SIZE cfg - 1" and c: "c = crossed_pool l ! i"
      using len by (auto simp: in_set_conv_nth)
    let ?q = "fst (the_queen l)" and ?m = "mutated_parents l ! i"
    have c': "c = crossover_row cfg d i ?q ?m" using nth [OF i] c by simp
    have q: "length ?q = gene_length cfg" "byte_gene ?q"
      using selection_well_formed(5) [OF wf body] by simp_all
    have m: "length ?m = gene_length cfg" "byte_gene ?m"
      using mutated_parents_well_formed(2,3) [OF wf body i] by simp_all
    have "length c = gene_length cfg"
      unfolding c' using q(1) m(1) by (rule length_crossover_row)
    moreover have "byte_gene c"
      using set_crossover_row [of cfg d i ?q ?m] q(2) m(2)
      unfolding c' byte_gene_def by blast
    ultimately show "length c = gene_length cfg \<and> byte_gene c" by simp
  qed
qed

lemma clamped_pool_eq_crossed_pool:
  assumes wf: "well_formed cfg s" and body: "generation_body cfg d s = Inr (Next l)"
  shows "clamped_pool l = crossed_pool l"
proof -
  have "map (map (clamp 0 255)) (crossed_pool l) = map (\<lambda>c. c) (crossed_pool l)"
    using crossed_pool_well_formed(3) [OF wf body]
    by (intro map_cong) (simp_all add: map_clamp_id)
  then show ?thesis
    by (simp add: generation_body_Next_facts(6) [OF body])
qed

lemma next_state_well_formed:
  assumes wf: "well_formed cfg s" and body: "generation_body cfg d s = Inr (Next l)"
  shows "well_formed cfg (next_state s l)"
proof -
  obtain q f where qf: "the_queen l = (q, f)" by (cases "the_queen l")
  have "pool (next_state s l) = crossed_pool l"
    using clamped_pool_eq_crossed_pool [OF wf body] by (simp add: next_state_def)
  moreover have "queen (next_state s l) = Some (q, f)"
    by (simp add: next_state_def qf)
  ultimately show ?thesis
    using crossed_pool_well_formed(1,3) [OF wf body] selection_well_formed(3,4,5) [OF wf body]
    by (simp add: well_formed_def qf)
qed

lemma reachable_well_formed: "reachable cfg s \<Longrightarrow> well_formed cfg s"
proof (induction rule: reachable.induct)
  case (start raw)
  show ?case by (rule initial_well_formed)
next
  case (iterate s d l)
  then show ?case by (simp add: next_state_well_formed)
qed

subsection \<open>The end of the loop\<close>

lemma selection_no_error:
  assumes wf: "well_formed cfg s" and ev: "evaluate cfg (pool s) = (p1, fs1)"
    and pop: "2 \<le> POP_SIZE cfg"
  shows "\<exists>q2 p2 fs2 q3 p3 fs3. demote (queen s) p1 fs1 = Inr (q2, p2, fs2) \<and>
           separate q2 p2 fs2 = Inr (q3, p3, fs3) \<and> length p3 = POP_SIZE cfg - 1"
proof -
  have lenp: "length p1 = length (pool s)"
    using evaluate_props(3) [OF ev] by (rule mset_eq_length)
  have lenf: "length fs1 = length p1"
    using evaluate_props(1) [OF ev] by simp
  show ?thesis
  proof (cases "queen s")
    case None
    then have "length p1 = POP_SIZE cfg"
      using well_formed_no_queenD [OF wf] lenp by simp
    with pop lenf obtain g p' f fs' where "p1 = g # p'" "fs1 = f # fs'"
      by (cases p1; cases fs1) auto
    with None \<open>length p1 = POP_SIZE cfg\<close> show ?thesis
      by (auto simp: demote_def separate_def)
  next
    case (Some qq)
    obtain q f where qq: "qq = (q, f)" by (cases qq)
    have len: "length p1 = POP_SIZE cfg - 1"
      using well_formed_queenD(1) [OF wf Some [unfolded qq]] lenp by simp
    with pop lenf obtain g p' f0 fs' where "p1 = g # p'" "fs1 = f0 # fs'"
      by (cases p1; cases fs1) auto
    with Some qq len show ?thesis
      by (auto simp: demote_def separate_def)
  qed
qed

lemma generation_body_no_error:
  assumes wf: "well_formed cfg s" and pop: "2 \<le> POP_SIZE cfg"
    and k: "1 \<le> NUM_TOURNAMENT_PARTICIPANTS cfg"
  shows "\<exists>out. generation_body cfg d s = Inr out"
proof -
  obtain p1 fs1 where ev: "evaluate cfg (pool s) = (p1, fs1)"
    by (cases "evaluate cfg (pool s)")
  from selection_no_error [OF wf ev pop] obtain q2 p2 fs2 q3 p3 fs3 where
    dm: "demote (queen s) p1 fs1 = Inr (q2, p2, fs2)"
    and sp: "separate q2 p2 fs2 = Inr (q3, p3, fs3)" and len: "length p3 = POP_SIZE cfg - 1"
    by blast
  from tournament_no_error [OF len pop k] obtain ps where
    tn: "tournament cfg d p3 fs3 = Inr ps" by blast
  have shape: "\<not> (\<exists>g \<in> set (pool s). length g \<noteq> gene_length cfg)"
    using wf by (simp add: well_formed_def)
  show ?thesis
    unfolding generation_body_def using shape ev dm sp tn by (simp add: Let_def)
qed

lemma infinite_fitness_present_iff:
  assumes wf: "well_formed cfg s" and ev: "evaluate cfg (pool s) = (p1, fs1)"
  shows "infinite_fitness_present cfg s \<longleftrightarrow> Infinity \<in> set fs1"
proof -
  have "set p1 = set (pool s)"
    using evaluate_props(3) [OF ev] by (rule mset_eq_setD)
  then have "Infinity \<in> set fs1 \<longleftrightarrow>
      (\<exists>g \<in> set (pool s). fitness_of (target_gene cfg) g = Infinity)"
    unfolding evaluate_props(1) [OF ev] by (metis (no_types, lifting) image_iff list.set_map)
  moreover have "\<not> (\<exists>q f. queen s = Some (q, f) \<and> f = Infinity)"
    using well_formed_queenD(4,5) [OF wf] by metis
  ultimately show ?thesis
    by (simp add: infinite_fitness_present_def)
qed

text \<open>
  C2. At the top of an iteration the loop breaks exactly when some member of the pool, or
  the queen if there is one, has infinite fitness. The decision is taken right after the
  evaluation and the sort, before any draw of the generation is used: the \<open>break\<close> and
  its result are the same for every draw. With at least two bees and tournaments of at
  least one, an iteration without infinite fitness runs to its end (no exception ends
  the loop).
\<close>

theorem break_iff_infinite_fitness:
  assumes "reachable cfg s"
  shows "((\<exists>p fs. generation_body cfg d s = Inr (Solved p fs)) \<longleftrightarrow>
            infinite_fitness_present cfg s) \<and>
         (\<forall>p fs d'. generation_body cfg d s = Inr (Solved p fs) \<longrightarrow>
            generation_body cfg d' s = Inr (Solved p fs)) \<and>
         (2 \<le> POP_SIZE cfg \<and> 1 \<le> NUM_TOURNAMENT_PARTICIPANTS cfg \<and>
            \<not> infinite_fitness_present cfg s \<longrightarrow>
            (\<exists>l. generation_body cfg d s = Inr (Next l)))"
proof -
  have wf: "well_formed cfg s" using assms by (rule reachable_well_formed)
  obtain p1 fs1 where ev: "evaluate cfg (pool s) = (p1, fs1)"
    by (cases "evaluate cfg (pool s)")
  note inf = infinite_fitness_present_iff [OF wf ev]
  have shape: "\<forall>g \<in> set (pool s). length g = gene_length cfg"
    using wf by (simp add: well_formed_def)
  have a: "(\<exists>p fs. generation_body cfg d s = Inr (Solved p fs)) \<longleftrightarrow>
      infinite_fitness_present cfg s"
    using shape ev by (simp add: generation_body_Solved_iff inf)
  have b: "generation_body cfg d' s = Inr (Solved p fs)"
    if "generation_body cfg d s = Inr (Solved p fs)" for p fs d'
    using that by (simp add: generation_body_Solved_iff)
  have c: "\<exists>l. generation_body cfg d s = Inr (Next l)"
    if "2 \<le> POP_SIZE cfg" "1 \<le> NUM_TOURNAMENT_PARTICIPANTS cfg"
      "\<not> infinite_fitness_present cfg s"
  proof -
    from generation_body_no_error [OF wf that(1,2)] obtain out where
      out: "generation_body cfg d s = Inr out" by blast
    show ?thesis
    proof (cases out)
      case (Solved p fs)
      with out a that(3) show ?thesis by blast
    next
      case (Next l)
      with out show ?thesis by blast
    qed
  qed
  from a b c show ?thesis by blast
qed

theorem break_iff_infinite_fitness_witness:
  "reachable small_config (initial_state small_config solved_raw) \<and>
   reachable small_config (initial_state small_config small_raw) \<and>
   generation_body small_config small_draws (initial_state small_config solved_raw) =
     Inr (Solved [[65, 66], [3, 77], [1, 66]] [Infinity, Finite (1 / 3965), Finite (1 / 4096)]) \<and>
   infinite_fitness_present small_config (initial_state small_config solved_raw) \<and>
   \<not> infinite_fitness_present small_config (initial_state small_config small_raw) \<and>
   (\<exists>l. generation_body small_config small_draws (initial_state small_config small_raw) =
      Inr (Next l))"
proof -
  have r1: "reachable small_config (initial_state small_config solved_raw)"
    and r2: "reachable small_config (initial_state small_config small_raw)"
    by (rule reachable.start)+
  have e1: "generation_body small_config small_draws (initial_state small_config solved_raw) =
     Inr (Solved [[65, 66], [3, 77], [1, 66]] [Infinity, Finite (1 / 3965), Finite (1 / 4096)])"
    by code_simp
  have e2: "generation_body small_config small_draws (initial_state small_config small_raw) =
     Inr (Next small_locals1)"
    by code_simp
  have pop: "2 \<le> POP_SIZE small_config" "1 \<le> NUM_TOURNAMENT_PARTICIPANTS small_config"
    by (simp_all add: small_config_def)
  have i1: "infinite_fitness_present small_config (initial_state small_config solved_raw)"
    using break_iff_infinite_fitness [OF r1, of small_draws] e1 by blast
  have i2: "\<not> infinite_fitness_present small_config (initial_state small_config small_raw)"
    using break_iff_infinite_fitness [OF r2, of small_draws] e2 by auto
  have "\<exists>l. generation_body small_config small_draws (initial_state small_config small_raw) =
      Inr (Next l)"
    using break_iff_infinite_fitness [OF r2, of small_draws] pop i2 by blast
  with r1 r2 e1 i1 i2 show ?thesis by blast
qed

subsection \<open>The small run, evaluated\<close>

lemma small_generation1:
  "generation_body small_config small_draws (initial_state small_config small_raw) =
     Inr (Next small_locals1)"
  by code_simp

lemma small_state2_eq:
  "next_state (initial_state small_config small_raw) small_locals1 = small_state2"
  by code_simp

lemma small_generation2:
  "generation_body small_config small_draws small_state2 = Inr (Next small_locals2)"
  by code_simp

lemma small_state3_eq: "next_state small_state2 small_locals2 = small_state3"
  by code_simp

lemma small_state2_reachable: "reachable small_config small_state2"
  using reachable.iterate [OF reachable.start small_generation1] by (simp add: small_state2_eq)

lemma small_state2_demoted: "queen_demoted small_config small_state2"
  by code_simp

subsection \<open>Order of the pool at selection\<close>

text \<open>
  C6 (as stated, refuted). In the second generation of the small run the queen
  \<open>[65, 68]\<close> is beaten and appended after the remaining child: the fitnesses that
  selection reads are 1/121 and then 1/4, which is not a descending order.
\<close>

theorem selection_order_counterexample:
  "reachable small_config small_state2 \<and>
   queen_demoted small_config small_state2 \<and>
   generation_body small_config small_draws small_state2 = Inr (Next small_locals2) \<and>
   selection_fitnesses small_locals2 = [Finite (1 / 121), Finite (1 / 4)] \<and>
   \<not> sorted_descending (selection_fitnesses small_locals2)"
proof -
  have "selection_fitnesses small_locals2 = [Finite (1 / 121), Finite (1 / 4)]"
    by (simp add: small_locals2_def)
  moreover have "\<not> sorted_descending [Finite (1 / 121), Finite (1 / 4)]"
    by (simp add: sorted_descending_def)
  ultimately show ?thesis
    using small_state2_reachable small_state2_demoted small_generation2 by simp
qed

lemma queen_demoted_iff:
  assumes "evaluate cfg (pool s) = (p1, f0 # fs')" "queen s = Some (q, f)"
  shows "queen_demoted cfg s \<longleftrightarrow> fit_less f f0"
  using assms by (simp add: queen_demoted_def)

lemma sorted_descending_tl:
  "sorted_descending (f # fs) \<Longrightarrow> sorted_descending fs"
  by (simp add: sorted_descending_def)

lemma sorted_descending_hd:
  "sorted_descending (f # fs) \<Longrightarrow> x \<in> set (f # fs) \<Longrightarrow> fit_le x f"
  by (auto simp: sorted_descending_def fit_le_refl)

lemma selection_order:
  assumes wf: "well_formed cfg s" and body: "generation_body cfg d s = Inr (Next l)"
  shows "(case evaluate cfg (pool s) of (p1, fs1) \<Rightarrow>
            fs1 = map (fitness_of (target_gene cfg)) p1 \<and> sorted_descending fs1 \<and>
            mset p1 = mset (pool s)) \<and>
         selection_fitnesses l = map (fitness_of (target_gene cfg)) (selection_pool l) \<and>
         snd (the_queen l) = fitness_of (target_gene cfg) (fst (the_queen l)) \<and>
         (\<forall>f \<in> set (selection_fitnesses l). fit_le f (snd (the_queen l))) \<and>
         (\<not> queen_demoted cfg s \<longrightarrow> sorted_descending (selection_fitnesses l)) \<and>
         (queen_demoted cfg s \<longrightarrow>
            sorted_descending (butlast (selection_fitnesses l)) \<and>
            queen s = Some (last (selection_pool l), last (selection_fitnesses l)))"
proof -
  from generation_body_Next_facts(1) [OF body] obtain p1 fs1 where
    ev: "evaluate cfg (pool s) = (p1, fs1)"
    and cases: "(queen s = None \<and> p1 = fst (the_queen l) # selection_pool l \<and>
          fs1 = snd (the_queen l) # selection_fitnesses l) \<or>
       (\<exists>f0 fs'. queen s = Some (the_queen l) \<and> fs1 = f0 # fs' \<and>
          \<not> fit_less (snd (the_queen l)) f0 \<and> selection_pool l = p1 \<and>
          selection_fitnesses l = fs1) \<or>
       (\<exists>qg qf p' fs'. queen s = Some (qg, qf) \<and> p1 = fst (the_queen l) # p' \<and>
          fs1 = snd (the_queen l) # fs' \<and> fit_less qf (snd (the_queen l)) \<and>
          selection_pool l = p' @ [qg] \<and> selection_fitnesses l = fs' @ [qf])"
    by blast
  note srt = evaluate_props(2) [OF ev]
  have a: "case evaluate cfg (pool s) of (p1, fs1) \<Rightarrow>
            fs1 = map (fitness_of (target_gene cfg)) p1 \<and> sorted_descending fs1 \<and>
            mset p1 = mset (pool s)"
    using evaluate_props [OF ev] by (simp add: ev)
  note b = selection_well_formed(2,3) [OF wf body]
  from cases consider
    (first) "queen s = None" "fs1 = snd (the_queen l) # selection_fitnesses l"
    | (kept) f0 fs' where "queen s = Some (the_queen l)" "fs1 = f0 # fs'"
      "\<not> fit_less (snd (the_queen l)) f0" "selection_fitnesses l = fs1"
    | (demoted) qg qf p' fs' where "queen s = Some (qg, qf)"
      "fs1 = snd (the_queen l) # fs'" "fit_less qf (snd (the_queen l))"
      "selection_pool l = p' @ [qg]"
      "selection_fitnesses l = fs' @ [qf]"
    by (elim disjE exE conjE) blast+
  then have c: "(\<forall>f \<in> set (selection_fitnesses l). fit_le f (snd (the_queen l))) \<and>
         (\<not> queen_demoted cfg s \<longrightarrow> sorted_descending (selection_fitnesses l)) \<and>
         (queen_demoted cfg s \<longrightarrow>
            sorted_descending (butlast (selection_fitnesses l)) \<and>
            queen s = Some (last (selection_pool l), last (selection_fitnesses l)))"
  proof cases
    case first
    have "\<not> queen_demoted cfg s" using first(1) by (simp add: queen_demoted_def)
    moreover have "sorted_descending (selection_fitnesses l)"
      using srt unfolding first(2) by (rule sorted_descending_tl)
    moreover have "\<forall>f \<in> set (selection_fitnesses l). fit_le f (snd (the_queen l))"
      using srt unfolding first(2) by (simp add: sorted_descending_Cons)
    ultimately show ?thesis by blast
  next
    case kept
    obtain q f where qf: "the_queen l = (q, f)" by (cases "the_queen l")
    have nd: "\<not> queen_demoted cfg s"
      using queen_demoted_iff [OF ev [unfolded kept(2)] kept(1) [unfolded qf]] kept(3)
      by (simp add: qf)
    have top: "fit_le f0 (snd (the_queen l))"
      using kept(3) by (simp add: fit_le_iff_not_less)
    have "fit_le x (snd (the_queen l))" if "x \<in> set (selection_fitnesses l)" for x
    proof -
      have "fit_le x f0"
        using srt that unfolding kept(4) kept(2) by (rule sorted_descending_hd)
      then show ?thesis using top by (rule fit_le_trans)
    qed
    moreover have "sorted_descending (selection_fitnesses l)"
      using srt by (simp add: kept(4))
    ultimately show ?thesis using nd by blast
  next
    case demoted
    have dm: "queen_demoted cfg s"
      using queen_demoted_iff [OF ev [unfolded demoted(2)] demoted(1)] demoted(3) by simp
    have bl: "butlast (selection_fitnesses l) = fs'" "last (selection_fitnesses l) = qf"
      by (simp_all add: demoted(5))
    have lastp: "last (selection_pool l) = qg"
      by (simp add: demoted(4))
    have "sorted_descending fs'"
      using srt unfolding demoted(2) by (rule sorted_descending_tl)
    moreover have "fit_le x (snd (the_queen l))" if "x \<in> set (selection_fitnesses l)" for x
    proof -
      from that have "x \<in> set fs' \<or> x = qf" by (auto simp: demoted(5))
      then show ?thesis
      proof
        assume "x \<in> set fs'"
        then show ?thesis
          using srt unfolding demoted(2) by (simp add: sorted_descending_Cons)
      next
        assume "x = qf"
        then show ?thesis using demoted(3) by (simp add: fit_less_imp_le)
      qed
    qed
    ultimately show ?thesis
      using dm bl lastp demoted(1) by simp
  qed
  from a b c show ?thesis by blast
qed

text \<open>
  C6 (amended). Right after the fitness computation and the sort, pool and fitnesses are
  aligned index by index and in descending order of fitness. At selection they are still
  aligned and no fitness exceeds the queen's. They are in descending order in a
  generation without readmission; in a generation where the queen has just been
  readmitted she is the last entry, appended without a new sort, and the entries before
  her are in descending order.
\<close>

theorem selection_aligned_sorted_before_readmission:
  assumes "reachable cfg s" and "generation_body cfg d s = Inr (Next l)"
  shows "(case evaluate cfg (pool s) of (p1, fs1) \<Rightarrow>
            fs1 = map (fitness_of (target_gene cfg)) p1 \<and> sorted_descending fs1 \<and>
            mset p1 = mset (pool s)) \<and>
         selection_fitnesses l = map (fitness_of (target_gene cfg)) (selection_pool l) \<and>
         snd (the_queen l) = fitness_of (target_gene cfg) (fst (the_queen l)) \<and>
         (\<forall>f \<in> set (selection_fitnesses l). fit_le f (snd (the_queen l))) \<and>
         (\<not> queen_demoted cfg s \<longrightarrow> sorted_descending (selection_fitnesses l)) \<and>
         (queen_demoted cfg s \<longrightarrow>
            sorted_descending (butlast (selection_fitnesses l)) \<and>
            queen s = Some (last (selection_pool l), last (selection_fitnesses l)))"
  using assms(1) [THEN reachable_well_formed] assms(2) by (rule selection_order)

theorem selection_aligned_sorted_before_readmission_witness:
  "reachable small_config small_state2 \<and>
   generation_body small_config small_draws small_state2 = Inr (Next small_locals2) \<and>
   queen_demoted small_config small_state2 \<and>
   evaluate small_config (pool small_state2) =
     ([[65, 67], [65, 77]], [Finite 1, Finite (1 / 121)]) \<and>
   sorted_descending [Finite 1, Finite (1 / 121)] \<and>
   sorted_descending (butlast (selection_fitnesses small_locals2)) \<and>
   queen small_state2 =
     Some (last (selection_pool small_locals2), last (selection_fitnesses small_locals2)) \<and>
   selection_fitnesses small_locals2 = [Finite (1 / 121), Finite (1 / 4)] \<and>
   fit_le (Finite (1 / 121)) (snd (the_queen small_locals2)) \<and>
   fit_le (Finite (1 / 4)) (snd (the_queen small_locals2))"
proof -
  have ev: "evaluate small_config (pool small_state2) =
     ([[65, 67], [65, 77]], [Finite 1, Finite (1 / 121)])"
    by code_simp
  note t = selection_aligned_sorted_before_readmission
    [OF small_state2_reachable small_generation2]
  from t have "case evaluate small_config (pool small_state2) of (p1, fs1) \<Rightarrow>
      fs1 = map (fitness_of (target_gene small_config)) p1 \<and> sorted_descending fs1 \<and>
      mset p1 = mset (pool small_state2)"
    by (rule conjunct1)
  then have s1: "sorted_descending [Finite 1, Finite (1 / 121)]"
    unfolding ev prod.case by blast
  from t small_state2_demoted have s2:
    "sorted_descending (butlast (selection_fitnesses small_locals2)) \<and>
     queen small_state2 =
       Some (last (selection_pool small_locals2), last (selection_fitnesses small_locals2))"
    by blast
  from t have s3:
    "\<forall>f \<in> set (selection_fitnesses small_locals2). fit_le f (snd (the_queen small_locals2))"
    by blast
  have s4: "selection_fitnesses small_locals2 = [Finite (1 / 121), Finite (1 / 4)]"
    by (simp add: small_locals2_def)
  from s3 have s5: "fit_le (Finite (1 / 121)) (snd (the_queen small_locals2))"
    "fit_le (Finite (1 / 4)) (snd (the_queen small_locals2))"
    unfolding s4 by simp_all
  from small_state2_reachable small_generation2 small_state2_demoted ev s1 s2 s4 s5
  show ?thesis by blast
qed

subsection \<open>The demoted queen\<close>

text \<open>
  C5 (as stated, refuted). In the small run the queen \<open>[65, 68]\<close> is demoted in
  generation 2. The population of the following generation holds the two crossover
  children only: she is not among them, and its size is what it is in every generation.
\<close>

theorem demoted_queen_counterexample:
  "reachable small_config small_state2 \<and>
   queen small_state2 = Some ([65, 68], Finite (1 / 4)) \<and>
   queen_demoted small_config small_state2 \<and>
   generation_body small_config small_draws small_state2 = Inr (Next small_locals2) \<and>
   pool (next_state small_state2 small_locals2) = [[65, 77], [65, 69]] \<and>
   [65, 68] \<notin> set (pool (next_state small_state2 small_locals2)) \<and>
   length (pool (next_state small_state2 small_locals2)) = POP_SIZE small_config - 1"
proof -
  have "queen small_state2 = Some ([65, 68], Finite (1 / 4))"
    by (simp add: small_state2_def)
  moreover have "pool (next_state small_state2 small_locals2) = [[65, 77], [65, 69]]"
    by (simp add: small_state3_eq small_state3_def)
  moreover have "POP_SIZE small_config - 1 = 2"
    by (simp add: small_config_def)
  ultimately show ?thesis
    using small_state2_reachable small_state2_demoted small_generation2 by simp
qed

text \<open>
  C5 (amended). A demoted queen is not discarded: she is appended to the pool and, once
  the new queen is taken out, she is the last of the \<open>POP_SIZE - 1\<close> members among
  which the tournaments of that same generation choose. The population of the following
  generation consists of the \<open>POP_SIZE - 1\<close> crossover children of the new queen.
\<close>

theorem demoted_queen_reinserted_for_selection:
  assumes "reachable cfg s" and "queen s = Some (q, f)" and "queen_demoted cfg s"
    and "generation_body cfg d s = Inr (Next l)"
  shows "q \<in> set (selection_pool l) \<and> last (selection_pool l) = q \<and>
         last (selection_fitnesses l) = f \<and>
         length (selection_pool l) = POP_SIZE cfg - 1 \<and>
         set (parents l) \<subseteq> set (selection_pool l) \<and>
         length (pool (next_state s l)) = POP_SIZE cfg - 1 \<and>
         (\<forall>i < POP_SIZE cfg - 1.
            pool (next_state s l) ! i =
              crossover_row cfg d i (fst (the_queen l)) (mutated_parents l ! i))"
proof -
  have wf: "well_formed cfg s" using assms(1) by (rule reachable_well_formed)
  note body = assms(4)
  have "queen s = Some (last (selection_pool l), last (selection_fitnesses l))"
    using selection_order [OF wf body] assms(3) by blast
  with assms(2) have lst: "last (selection_pool l) = q" "last (selection_fitnesses l) = f"
    by simp_all
  have len: "length (selection_pool l) = POP_SIZE cfg - 1"
    by (rule selection_well_formed(1) [OF wf body])
  have "selection_pool l \<noteq> []"
  proof
    assume "selection_pool l = []"
    then have "POP_SIZE cfg - 1 = 0" using len by simp
    then have "parents l = []" using parents_well_formed(1) [OF wf body] by simp
    then show False
      using generation_body_Next_facts(2) [OF body] \<open>POP_SIZE cfg - 1 = 0\<close>
      by (simp add: tournament_def split: if_splits)
  qed
  then have mem: "q \<in> set (selection_pool l)"
    using lst(1) last_in_set by blast
  have np: "pool (next_state s l) = crossed_pool l"
    using clamped_pool_eq_crossed_pool [OF wf body] by (simp add: next_state_def)
  have "length (pool (next_state s l)) = POP_SIZE cfg - 1"
    by (simp add: np crossed_pool_well_formed(1) [OF wf body])
  moreover have "\<forall>i < POP_SIZE cfg - 1.
      pool (next_state s l) ! i =
        crossover_row cfg d i (fst (the_queen l)) (mutated_parents l ! i)"
    by (simp add: np crossed_pool_well_formed(2) [OF wf body])
  ultimately show ?thesis
    using mem lst len parents_well_formed(2) [OF wf body] by blast
qed


theorem demoted_queen_reinserted_for_selection_witness:
  "reachable small_config small_state2 \<and>
   queen small_state2 = Some ([65, 68], Finite (1 / 4)) \<and>
   queen_demoted small_config small_state2 \<and>
   generation_body small_config small_draws small_state2 = Inr (Next small_locals2) \<and>
   [65, 68] \<in> set (selection_pool small_locals2) \<and>
   length (selection_pool small_locals2) = 2 \<and>
   length (pool (next_state small_state2 small_locals2)) = 2 \<and>
   (0 :: nat) < POP_SIZE small_config - 1 \<and>
   pool (next_state small_state2 small_locals2) ! 0 =
     crossover_row small_config small_draws 0 (fst (the_queen small_locals2))
       (mutated_parents small_locals2 ! 0)"
proof -
  have q: "queen small_state2 = Some ([65, 68], Finite (1 / 4))"
    by (simp add: small_state2_def)
  have n: "POP_SIZE small_config - 1 = 2"
    by (simp add: small_config_def)
  note t = demoted_queen_reinserted_for_selection
    [OF small_state2_reachable q small_state2_demoted small_generation2]
  from t have "[65, 68] \<in> set (selection_pool small_locals2)"
    "length (selection_pool small_locals2) = 2"
    "length (pool (next_state small_state2 small_locals2)) = 2"
    "pool (next_state small_state2 small_locals2) ! 0 =
       crossover_row small_config small_draws 0 (fst (the_queen small_locals2))
         (mutated_parents small_locals2 ! 0)"
    unfolding n by simp_all
  with small_state2_reachable q small_state2_demoted small_generation2 n
  show ?thesis by simp
qed

subsection \<open>Strong mutation\<close>

lemma strong_mutate_row_nth:
  assumes "byte_gene g" "j < length g"
  shows "if mutate_mask (strong_num_code_mutate cfg) (strong_mask_randn d i) (length g) ! j
         then strong_mutate_row cfg d i g ! j = clamp 0 255 (g ! j + 1) \<or>
              strong_mutate_row cfg d i g ! j = clamp 0 255 (g ! j - 1)
         else strong_mutate_row cfg d i g ! j = g ! j"
proof -
  let ?msk = "mutate_mask (strong_num_code_mutate cfg) (strong_mask_randn d i) (length g)"
  let ?noise = "sign_noise (strong_noise_raw d i) (length g)"
  have out: "strong_mutate_row cfg d i g ! j =
      clamp 0 255 (if ?msk ! j then g ! j + ?noise ! j else g ! j)"
    using assms(2) by (simp add: strong_mutate_row_def Let_def length_where_add where_add_nth)
  have "g ! j \<in> set g" using assms(2) by (rule nth_mem)
  then have keep: "clamp 0 255 (g ! j) = g ! j"
    using assms(1) by (simp add: byte_gene_def clamp_id)
  have "?noise ! j = 1 \<or> ?noise ! j = - 1"
    using assms(2) by (rule sign_noise_nth)
  then show ?thesis
    using out keep by auto
qed

subsection \<open>Crossover\<close>

lemma crossover_row_queen_first:
  "crossover_row cfg small_draws i q m =
     take (gene_midpoint cfg) q @ drop (gene_midpoint cfg) m"
  by (simp add: crossover_row_eq small_draws_def)

lemma crossover_row_mate_first:
  "crossover_row cfg mate_first_draws i q m =
     take (gene_midpoint cfg) m @ drop (gene_midpoint cfg) q"
  by (simp add: crossover_row_eq mate_first_draws_def)

text \<open>
  C8. Child \<open>i\<close> of the crossover is cut at the midpoint \<open>gene_length div 2\<close>: it is
  the first half of the queen followed by the second half of the strongly mutated mate,
  or the first half of the mate followed by the second half of the queen. Which of the
  two is decided by the two numbers drawn for child \<open>i\<close> alone, and for every child
  there are draws that give the one form and draws that give the other.
\<close>

theorem crossover_child_forms:
  assumes "generation_body cfg d s = Inr (Next l)" and "i < POP_SIZE cfg - 1"
  shows "gene_midpoint cfg = gene_length cfg div 2 \<and>
         (crossed_pool l ! i =
            take (gene_midpoint cfg) (fst (the_queen l)) @
            drop (gene_midpoint cfg) (mutated_parents l ! i) \<or>
          crossed_pool l ! i =
            take (gene_midpoint cfg) (mutated_parents l ! i) @
            drop (gene_midpoint cfg) (fst (the_queen l))) \<and>
         crossed_pool l ! i =
           (if crossover_randn d i 1 < crossover_randn d i 0
            then take (gene_midpoint cfg) (mutated_parents l ! i) @
                 drop (gene_midpoint cfg) (fst (the_queen l))
            else take (gene_midpoint cfg) (fst (the_queen l)) @
                 drop (gene_midpoint cfg) (mutated_parents l ! i)) \<and>
         (\<exists>d1 d2.
            crossover_row cfg d1 i (fst (the_queen l)) (mutated_parents l ! i) =
              take (gene_midpoint cfg) (fst (the_queen l)) @
              drop (gene_midpoint cfg) (mutated_parents l ! i) \<and>
            crossover_row cfg d2 i (fst (the_queen l)) (mutated_parents l ! i) =
              take (gene_midpoint cfg) (mutated_parents l ! i) @
              drop (gene_midpoint cfg) (fst (the_queen l)))"
proof -
  have c: "crossed_pool l ! i =
      crossover_row cfg d i (fst (the_queen l)) (mutated_parents l ! i)"
    using assms(2) by (simp add: generation_body_Next_facts(4) [OF assms(1)] crossover_nth)
  have "\<exists>d1 d2.
            crossover_row cfg d1 i (fst (the_queen l)) (mutated_parents l ! i) =
              take (gene_midpoint cfg) (fst (the_queen l)) @
              drop (gene_midpoint cfg) (mutated_parents l ! i) \<and>
            crossover_row cfg d2 i (fst (the_queen l)) (mutated_parents l ! i) =
              take (gene_midpoint cfg) (mutated_parents l ! i) @
              drop (gene_midpoint cfg) (fst (the_queen l))"
    using crossover_row_queen_first crossover_row_mate_first by blast
  then show ?thesis
    by (simp add: c crossover_row_eq gene_midpoint_def)
qed

theorem crossover_child_forms_witness:
  "generation_body small_config small_draws small_state2 = Inr (Next small_locals2) \<and>
   (1 :: nat) < POP_SIZE small_config - 1 \<and>
   gene_midpoint small_config = 1 \<and>
   fst (the_queen small_locals2) = [65, 67] \<and>
   mutated_parents small_locals2 ! 1 = [65, 69] \<and>
   \<not> crossover_randn small_draws 1 1 < crossover_randn small_draws 1 0 \<and>
   crossed_pool small_locals2 ! 1 = take 1 [65, 67] @ drop 1 [65, 69]"
proof -
  have i: "(1 :: nat) < POP_SIZE small_config - 1"
    by (simp add: small_config_def)
  have m: "gene_midpoint small_config = 1"
    by (simp add: gene_midpoint_def gene_length_def small_config_def)
  have q: "fst (the_queen small_locals2) = [65, 67]"
    "mutated_parents small_locals2 ! 1 = [65, 69]"
    by (simp_all add: small_locals2_def)
  have r: "\<not> crossover_randn small_draws 1 1 < crossover_randn small_draws 1 0"
    by (simp add: small_draws_def)
  note t = crossover_child_forms [OF small_generation2 i]
  from t r have "crossed_pool small_locals2 ! 1 =
      take (gene_midpoint small_config) (fst (the_queen small_locals2)) @
      drop (gene_midpoint small_config) (mutated_parents small_locals2 ! 1)"
    by presburger
  then have "crossed_pool small_locals2 ! 1 = take 1 [65, 67] @ drop 1 [65, 69]"
    unfolding m q .
  with small_generation2 i m q r show ?thesis by blast
qed

subsection \<open>Where the value 255 comes from\<close>

lemma selection_origin:
  assumes "generation_body cfg d s = Inr (Next l)"
  shows "fst (the_queen l) \<in> set (pool s) \<or> (\<exists>f. queen s = Some (fst (the_queen l), f))"
    and "\<forall>g \<in> set (selection_pool l). g \<in> set (pool s) \<or> (\<exists>f. queen s = Some (g, f))"
proof -
  from generation_body_Next_facts(1) [OF assms] obtain p1 fs1 where
    ev: "evaluate cfg (pool s) = (p1, fs1)"
    and cases: "(queen s = None \<and> p1 = fst (the_queen l) # selection_pool l \<and>
          fs1 = snd (the_queen l) # selection_fitnesses l) \<or>
       (\<exists>f0 fs'. queen s = Some (the_queen l) \<and> fs1 = f0 # fs' \<and>
          \<not> fit_less (snd (the_queen l)) f0 \<and> selection_pool l = p1 \<and>
          selection_fitnesses l = fs1) \<or>
       (\<exists>qg qf p' fs'. queen s = Some (qg, qf) \<and> p1 = fst (the_queen l) # p' \<and>
          fs1 = snd (the_queen l) # fs' \<and> fit_less qf (snd (the_queen l)) \<and>
          selection_pool l = p' @ [qg] \<and> selection_fitnesses l = fs' @ [qf])"
    by blast
  have setp: "set p1 = set (pool s)"
    using evaluate_props(3) [OF ev] by (rule mset_eq_setD)
  from cases consider
    (first) "p1 = fst (the_queen l) # selection_pool l"
    | (kept) "queen s = Some (the_queen l)" "selection_pool l = p1"
    | (demoted) qg qf p' where "queen s = Some (qg, qf)" "p1 = fst (the_queen l) # p'"
      "selection_pool l = p' @ [qg]"
    by (elim disjE exE conjE) blast+
  then have "(fst (the_queen l) \<in> set (pool s) \<or> (\<exists>f. queen s = Some (fst (the_queen l), f))) \<and>
    (\<forall>g \<in> set (selection_pool l). g \<in> set (pool s) \<or> (\<exists>f. queen s = Some (g, f)))"
  proof cases
    case first
    have "set (fst (the_queen l) # selection_pool l) = set (pool s)"
      using setp by (simp only: first)
    then show ?thesis by auto
  next
    case kept
    have "queen s = Some (fst (the_queen l), snd (the_queen l))"
      by (simp add: kept(1))
    then show ?thesis using setp kept(2) by blast
  next
    case demoted
    have "set (fst (the_queen l) # p') = set (pool s)"
      using setp by (simp only: demoted(2))
    then show ?thesis using demoted(1) by (auto simp: demoted(3))
  qed
  then show "fst (the_queen l) \<in> set (pool s) \<or> (\<exists>f. queen s = Some (fst (the_queen l), f))"
    and "\<forall>g \<in> set (selection_pool l). g \<in> set (pool s) \<or> (\<exists>f. queen s = Some (g, f))"
    by blast+
qed

text \<open>
  C10. Every gene value of the initial population lies between 0 and 254: the upper
  bound 255 of the initializer is exclusive. Neither selection nor crossover makes a new
  value: from a state whose values are all at most 254, the new queen and the selected
  parents hold values of at most 254, and a 255 in the next population is a 255 of a
  strongly mutated parent.
\<close>

theorem initial_pool_below_255:
  "(\<forall>g \<in> set (pool (initial_state cfg raw)). \<forall>v \<in> set g. 0 \<le> v \<and> v \<le> 254) \<and>
   (reachable cfg s \<and> generation_body cfg d s = Inr (Next l) \<and>
    (\<forall>g \<in> set (pool s). \<forall>v \<in> set g. v \<le> 254) \<and>
    (\<forall>q f. queen s = Some (q, f) \<longrightarrow> (\<forall>v \<in> set q. v \<le> 254)) \<longrightarrow>
      (\<forall>v \<in> set (fst (the_queen l)). v \<le> 254) \<and>
      (\<forall>g \<in> set (parents l). \<forall>v \<in> set g. v \<le> 254) \<and>
      ((\<exists>c \<in> set (pool (next_state s l)). 255 \<in> set c) \<longrightarrow>
         (\<exists>m \<in> set (mutated_parents l). 255 \<in> set m)))"
proof (intro conjI impI)
  show "\<forall>g \<in> set (pool (initial_state cfg raw)). \<forall>v \<in> set g. 0 \<le> v \<and> v \<le> 254"
    using initial_pool_range by blast
next
  assume h: "reachable cfg s \<and> generation_body cfg d s = Inr (Next l) \<and>
    (\<forall>g \<in> set (pool s). \<forall>v \<in> set g. v \<le> 254) \<and>
    (\<forall>q f. queen s = Some (q, f) \<longrightarrow> (\<forall>v \<in> set q. v \<le> 254))"
  then have wf: "well_formed cfg s" by (simp add: reachable_well_formed)
  from h have body: "generation_body cfg d s = Inr (Next l)" by simp
  from h have lowp: "\<And>g v. g \<in> set (pool s) \<Longrightarrow> v \<in> set g \<Longrightarrow> v \<le> 254"
    and lowq: "\<And>q f v. queen s = Some (q, f) \<Longrightarrow> v \<in> set q \<Longrightarrow> v \<le> 254"
    by blast+
  show q: "\<forall>v \<in> set (fst (the_queen l)). v \<le> 254"
    using selection_origin(1) [OF body] lowp lowq by blast
  show "\<forall>g \<in> set (parents l). \<forall>v \<in> set g. v \<le> 254"
  proof (intro ballI)
    fix g v assume "g \<in> set (parents l)" "v \<in> set g"
    then have "g \<in> set (selection_pool l)"
      using parents_well_formed(2) [OF wf body] by blast
    then have "g \<in> set (pool s) \<or> (\<exists>f. queen s = Some (g, f))"
      using selection_origin(2) [OF body] by blast
    then show "v \<le> 254" using \<open>v \<in> set g\<close> lowp lowq by blast
  qed
  show "\<exists>m \<in> set (mutated_parents l). 255 \<in> set m"
    if "\<exists>c \<in> set (pool (next_state s l)). 255 \<in> set c"
  proof -
    have np: "pool (next_state s l) = crossed_pool l"
      using clamped_pool_eq_crossed_pool [OF wf body] by (simp add: next_state_def)
    with that obtain c where "c \<in> set (crossed_pool l)" "255 \<in> set c" by auto
    then obtain i where i: "i < POP_SIZE cfg - 1" and c: "c = crossed_pool l ! i"
      using crossed_pool_well_formed(1) [OF wf body] by (auto simp: in_set_conv_nth)
    have "c = crossover_row cfg d i (fst (the_queen l)) (mutated_parents l ! i)"
      using crossed_pool_well_formed(2) [OF wf body i] c by simp
    then have "set c \<subseteq> set (fst (the_queen l)) \<union> set (mutated_parents l ! i)"
      using set_crossover_row by simp
    moreover have "255 \<notin> set (fst (the_queen l))"
      using q by fastforce
    ultimately have "255 \<in> set (mutated_parents l ! i)"
      using \<open>255 \<in> set c\<close> by blast
    moreover have "i < length (mutated_parents l)"
      using i parents_well_formed(1) [OF wf body]
      by (simp add: generation_body_Next_facts(3) [OF body] length_strong_mutate)
    ultimately show ?thesis
      using nth_mem by blast
  qed
qed

theorem initial_pool_below_255_witness:
  "pool (initial_state small_config high_raw) = [[65, 68], [3, 254], [1, 254]] \<and>
   reachable small_config (initial_state small_config high_raw) \<and>
   generation_body small_config high_draws (initial_state small_config high_raw) =
     Inr (Next high_locals) \<and>
   queen (initial_state small_config high_raw) = None \<and>
   parents high_locals = [[3, 254], [1, 254]] \<and>
   pool (next_state (initial_state small_config high_raw) high_locals) =
     [[65, 255], [65, 255]] \<and>
   (\<exists>m \<in> set (mutated_parents high_locals). 255 \<in> set m)"
proof -
  let ?s = "initial_state small_config high_raw"
  have p: "pool ?s = [[65, 68], [3, 254], [1, 254]]"
    by code_simp
  have r: "reachable small_config ?s"
    by (rule reachable.start)
  have e: "generation_body small_config high_draws ?s = Inr (Next high_locals)"
    by code_simp
  have qn: "queen ?s = None"
    by (simp add: initial_state_def)
  have np: "pool (next_state ?s high_locals) = [[65, 255], [65, 255]]"
    by (simp add: next_state_def high_locals_def)
  note t = initial_pool_below_255 [of small_config high_raw ?s high_draws high_locals]
  from t have low: "\<forall>g \<in> set (pool ?s). \<forall>v \<in> set g. 0 \<le> v \<and> v \<le> 254"
    by (rule conjunct1)
  then have low': "\<forall>g \<in> set (pool ?s). \<forall>v \<in> set g. v \<le> 254"
    by blast
  have "\<exists>c \<in> set (pool (next_state ?s high_locals)). 255 \<in> set c"
    by (simp add: np)
  with t r e low' qn have m: "\<exists>m \<in> set (mutated_parents high_locals). 255 \<in> set m"
    by simp
  have "parents high_locals = [[3, 254], [1, 254]]"
    by (simp add: high_locals_def)
  with p r e qn np m show ?thesis by blast
qed

subsection \<open>Configurations\<close>

lemma empty_goal_infinite:
  assumes "GOAL cfg = []" and "1 \<le> POP_SIZE cfg"
  shows "infinite_fitness_present cfg (initial_state cfg raw)"
proof -
  have "pool (initial_state cfg raw) = map (\<lambda>i. []) [0..<POP_SIZE cfg]"
    using assms(1) by (simp add: initial_state_def gene_length_def)
  moreover have "[0..<POP_SIZE cfg] \<noteq> []"
    using assms(2) by simp
  ultimately have "[] \<in> set (pool (initial_state cfg raw))"
    by (cases "[0..<POP_SIZE cfg]") auto
  moreover have "fitness_of (target_gene cfg) [] = Infinity"
    by (simp add: fitness_of_def square_error_def float_div_one_def)
  ultimately show ?thesis
    unfolding infinite_fitness_present_def by blast
qed

lemma evaluate_Nil: "evaluate cfg [] = ([], [])"
  by (simp add: evaluate_def sort_descending_indices_def argsort_by_def)

lemma first_generation_no_bee:
  assumes "POP_SIZE cfg = 0"
  shows "generation_body cfg d (initial_state cfg raw) = Inl IndexError"
proof -
  have "pool (initial_state cfg raw) = []" "queen (initial_state cfg raw) = None"
    using assms by (simp_all add: initial_state_def)
  then show ?thesis
    by (simp add: generation_body_def evaluate_Nil demote_def separate_def)
qed

lemma first_generation_no_contender:
  assumes pop: "1 \<le> POP_SIZE cfg"
    and ninf: "\<not> infinite_fitness_present cfg (initial_state cfg raw)"
    and k: "POP_SIZE cfg = 1 \<or> NUM_TOURNAMENT_PARTICIPANTS cfg = 0"
  shows "generation_body cfg d (initial_state cfg raw) = Inl RuntimeError"
proof -
  let ?s = "initial_state cfg raw"
  have wf: "well_formed cfg ?s" by (rule initial_well_formed)
  have q: "queen ?s = None" by (simp add: initial_state_def)
  obtain p1 fs1 where ev: "evaluate cfg (pool ?s) = (p1, fs1)"
    by (cases "evaluate cfg (pool ?s)")
  have ni: "Infinity \<notin> set fs1"
    using ninf infinite_fitness_present_iff [OF wf ev] by simp
  have lenp: "length p1 = POP_SIZE cfg"
    using evaluate_props(3) [OF ev, THEN mset_eq_length] well_formed_no_queenD [OF wf q]
    by simp
  have lenf: "length fs1 = length p1"
    using evaluate_props(1) [OF ev] by simp
  from pop lenp lenf obtain g p' f fs' where p1: "p1 = g # p'" and fs1: "fs1 = f # fs'"
    by (cases p1; cases fs1) auto
  have lenp': "length p' = POP_SIZE cfg - 1"
    using lenp p1 by simp
  have dm: "demote (queen ?s) p1 fs1 = Inr (None, p1, fs1)"
    by (simp add: q demote_def)
  have sp: "separate None p1 fs1 = Inr ((g, f), p', fs')"
    by (simp add: separate_def p1 fs1)
  have "\<not> (\<exists>row \<in> set (contender_ids cfg d). \<exists>c \<in> set row. length p' \<le> c)"
    using lenp' contender_ids_row(2) [of _ cfg d] by fastforce
  moreover have "min (NUM_TOURNAMENT_PARTICIPANTS cfg) (POP_SIZE cfg - 1) = 0"
    using k by auto
  ultimately have tn: "tournament cfg d p' fs' = Inl RuntimeError"
    using pop by (simp add: tournament_def)
  have shape: "\<not> (\<exists>g \<in> set (pool ?s). length g \<noteq> gene_length cfg)"
    using wf by (simp add: well_formed_def)
  show ?thesis
    unfolding generation_body_def using shape ev ni dm sp tn by simp
qed

lemma first_generation_empty_goal:
  assumes "GOAL cfg = []" and "1 \<le> POP_SIZE cfg"
  shows "\<exists>p fs. generation_body cfg d (initial_state cfg raw) = Inr (Solved p fs)"
proof -
  let ?s = "initial_state cfg raw"
  have wf: "well_formed cfg ?s" by (rule initial_well_formed)
  obtain p1 fs1 where ev: "evaluate cfg (pool ?s) = (p1, fs1)"
    by (cases "evaluate cfg (pool ?s)")
  have "infinite_fitness_present cfg ?s"
    using assms by (rule empty_goal_infinite)
  then have "Infinity \<in> set fs1"
    using infinite_fitness_present_iff [OF wf ev] by simp
  moreover have "\<forall>g \<in> set (pool ?s). length g = gene_length cfg"
    using wf by (simp add: well_formed_def)
  ultimately have "generation_body cfg d ?s = Inr (Solved p1 fs1)"
    using ev by (simp add: generation_body_Solved_iff)
  then show ?thesis by blast
qed

lemma initial_infinite_fitness_present:
  "infinite_fitness_present cfg (initial_state cfg raw) \<longleftrightarrow>
     (\<exists>g \<in> set (pool (initial_state cfg raw)). fitness_of (target_gene cfg) g = Infinity)"
  by (simp add: infinite_fitness_present_def initial_state_def)

text \<open>
  C9 (as stated, refuted). Three bees with tournaments of three are a configuration
  error of the specification (\<open>POP_SIZE \<le> NUM_TOURNAMENT_PARTICIPANTS\<close>); the script
  builds the population, enters the loop and completes generation 1.
\<close>

theorem configuration_check_counterexample:
  "spec_configuration_error unchecked_constants \<and>
   startup unchecked_constants small_raw =
     Inr (unchecked_config, initial_state unchecked_config small_raw) \<and>
   generation_body unchecked_config small_draws (initial_state unchecked_config small_raw) =
     Inr (Next unchecked_locals)"
  by code_simp

text \<open>
  C9 (amended). The script has no configuration check. A negative \<open>POP_SIZE\<close> makes
  \<open>torch.randint\<close> raise at line 44, before the loop. With any other constants the
  population is created and the loop is entered, and what the specification calls a
  configuration error shows, if at all, inside generation 1:
  with an empty target and at least one bee, every fitness is infinite and the loop
  breaks as solved;
  with at least two bees and a tournament slice that keeps at least one contender - also
  when \<open>POP_SIZE \<le> NUM_TOURNAMENT_PARTICIPANTS\<close>, and whatever the mutation
  probabilities - generation 1 raises nothing;
  with one bee, or with a tournament slice that keeps no contender, a generation 1 that
  is not solved raises at \<open>topk\<close> (line 90);
  with no bee at all, generation 1 raises at \<open>pool[0]\<close> (line 83).
\<close>

theorem no_configuration_check:
  "(const_POP_SIZE c < 0 \<longrightarrow> startup c raw = Inl RuntimeError) \<and>
   (0 \<le> const_POP_SIZE c \<longrightarrow>
      startup c raw = Inr (as_config c, initial_state (as_config c) raw) \<and>
      (const_GOAL c = [] \<and> 1 \<le> const_POP_SIZE c \<longrightarrow>
         (\<exists>p fs. generation_body (as_config c) d (initial_state (as_config c) raw) =
            Inr (Solved p fs))) \<and>
      (2 \<le> const_POP_SIZE c \<and>
       1 \<le> slice_stop (const_NUM_TOURNAMENT_PARTICIPANTS c) (nat (const_POP_SIZE c) - 1) \<longrightarrow>
         (\<exists>out. generation_body (as_config c) d (initial_state (as_config c) raw) =
            Inr out)) \<and>
      (1 \<le> const_POP_SIZE c \<and>
       (const_POP_SIZE c = 1 \<or>
        slice_stop (const_NUM_TOURNAMENT_PARTICIPANTS c) (nat (const_POP_SIZE c) - 1) = 0) \<and>
       \<not> infinite_fitness_present (as_config c) (initial_state (as_config c) raw) \<longrightarrow>
         generation_body (as_config c) d (initial_state (as_config c) raw) =
           Inl RuntimeError) \<and>
      (const_POP_SIZE c = 0 \<longrightarrow>
         generation_body (as_config c) d (initial_state (as_config c) raw) =
           Inl IndexError))"
proof -
  let ?cfg = "as_config c"
  have fields: "GOAL ?cfg = const_GOAL c" "POP_SIZE ?cfg = nat (const_POP_SIZE c)"
    "NUM_TOURNAMENT_PARTICIPANTS ?cfg =
       slice_stop (const_NUM_TOURNAMENT_PARTICIPANTS c) (nat (const_POP_SIZE c) - 1)"
    by (simp_all add: as_config_def)
  have a: "startup c raw = Inl RuntimeError" if "const_POP_SIZE c < 0"
    using that by (simp add: startup_def)
  have b: "startup c raw = Inr (?cfg, initial_state ?cfg raw)" if "0 \<le> const_POP_SIZE c"
    using that by (simp add: startup_def)
  have s: "\<exists>p fs. generation_body ?cfg d (initial_state ?cfg raw) = Inr (Solved p fs)"
    if "const_GOAL c = [] \<and> 1 \<le> const_POP_SIZE c"
    using that by (intro first_generation_empty_goal) (auto simp: fields)
  have n: "\<exists>out. generation_body ?cfg d (initial_state ?cfg raw) = Inr out"
    if "2 \<le> const_POP_SIZE c \<and>
        1 \<le> slice_stop (const_NUM_TOURNAMENT_PARTICIPANTS c) (nat (const_POP_SIZE c) - 1)"
    using that
    by (intro generation_body_no_error [OF initial_well_formed]) (auto simp: fields)
  have t: "generation_body ?cfg d (initial_state ?cfg raw) = Inl RuntimeError"
    if "1 \<le> const_POP_SIZE c \<and>
       (const_POP_SIZE c = 1 \<or>
        slice_stop (const_NUM_TOURNAMENT_PARTICIPANTS c) (nat (const_POP_SIZE c) - 1) = 0) \<and>
       \<not> infinite_fitness_present ?cfg (initial_state ?cfg raw)"
    using that by (intro first_generation_no_contender) (auto simp: fields)
  have z: "generation_body ?cfg d (initial_state ?cfg raw) = Inl IndexError"
    if "const_POP_SIZE c = 0"
    using that by (intro first_generation_no_bee) (auto simp: fields)
  from a b s n t z show ?thesis by blast
qed


theorem no_configuration_check_witness:
  "const_POP_SIZE negative_constants < 0 \<and>
   startup negative_constants small_raw = Inl RuntimeError \<and>
   0 \<le> const_POP_SIZE unchecked_constants \<and>
   startup unchecked_constants small_raw =
     Inr (as_config unchecked_constants, initial_state (as_config unchecked_constants) small_raw) \<and>
   const_GOAL empty_constants = [] \<and> 1 \<le> const_POP_SIZE empty_constants \<and>
   (\<exists>p fs. generation_body (as_config empty_constants) small_draws
      (initial_state (as_config empty_constants) small_raw) = Inr (Solved p fs)) \<and>
   2 \<le> const_POP_SIZE unchecked_constants \<and>
   const_POP_SIZE unchecked_constants \<le> const_NUM_TOURNAMENT_PARTICIPANTS unchecked_constants \<and>
   (\<exists>out. generation_body (as_config unchecked_constants) small_draws
      (initial_state (as_config unchecked_constants) small_raw) = Inr out) \<and>
   const_NUM_TOURNAMENT_PARTICIPANTS last_dropped_constants = - 1 \<and>
   slice_stop (const_NUM_TOURNAMENT_PARTICIPANTS last_dropped_constants)
     (nat (const_POP_SIZE last_dropped_constants) - 1) = 1 \<and>
   (\<exists>out. generation_body (as_config last_dropped_constants) small_draws
      (initial_state (as_config last_dropped_constants) small_raw) = Inr out) \<and>
   const_NUM_TOURNAMENT_PARTICIPANTS no_contender_constants = 0 \<and>
   \<not> infinite_fitness_present (as_config no_contender_constants)
       (initial_state (as_config no_contender_constants) small_raw) \<and>
   generation_body (as_config no_contender_constants) small_draws
     (initial_state (as_config no_contender_constants) small_raw) = Inl RuntimeError \<and>
   const_POP_SIZE one_bee_constants = 1 \<and>
   \<not> infinite_fitness_present (as_config one_bee_constants)
       (initial_state (as_config one_bee_constants) small_raw) \<and>
   generation_body (as_config one_bee_constants) small_draws
     (initial_state (as_config one_bee_constants) small_raw) = Inl RuntimeError \<and>
   const_POP_SIZE no_bee_constants = 0 \<and>
   generation_body (as_config no_bee_constants) small_draws
     (initial_state (as_config no_bee_constants) small_raw) = Inl IndexError"
proof -
  have neg: "const_POP_SIZE negative_constants < 0"
    by (simp add: negative_constants_def unchecked_constants_def)
  have unc: "0 \<le> const_POP_SIZE unchecked_constants" "2 \<le> const_POP_SIZE unchecked_constants"
    "const_POP_SIZE unchecked_constants \<le> const_NUM_TOURNAMENT_PARTICIPANTS unchecked_constants"
    "1 \<le> slice_stop (const_NUM_TOURNAMENT_PARTICIPANTS unchecked_constants)
       (nat (const_POP_SIZE unchecked_constants) - 1)"
    by (simp_all add: unchecked_constants_def slice_stop_def)
  have emp: "const_GOAL empty_constants = []" "1 \<le> const_POP_SIZE empty_constants"
    "0 \<le> const_POP_SIZE empty_constants"
    by (simp_all add: empty_constants_def unchecked_constants_def)
  have lst: "const_NUM_TOURNAMENT_PARTICIPANTS last_dropped_constants = - 1"
    "slice_stop (const_NUM_TOURNAMENT_PARTICIPANTS last_dropped_constants)
       (nat (const_POP_SIZE last_dropped_constants) - 1) = 1"
    "0 \<le> const_POP_SIZE last_dropped_constants" "2 \<le> const_POP_SIZE last_dropped_constants"
    by (simp_all add: last_dropped_constants_def unchecked_constants_def slice_stop_def)
  have noc: "const_NUM_TOURNAMENT_PARTICIPANTS no_contender_constants = 0"
    "slice_stop (const_NUM_TOURNAMENT_PARTICIPANTS no_contender_constants)
       (nat (const_POP_SIZE no_contender_constants) - 1) = 0"
    "0 \<le> const_POP_SIZE no_contender_constants" "1 \<le> const_POP_SIZE no_contender_constants"
    by (simp_all add: no_contender_constants_def unchecked_constants_def slice_stop_def)
  have noc_fin: "\<not> infinite_fitness_present (as_config no_contender_constants)
       (initial_state (as_config no_contender_constants) small_raw)"
    unfolding initial_infinite_fitness_present by code_simp
  have one: "const_POP_SIZE one_bee_constants = 1"
    by (simp add: one_bee_constants_def unchecked_constants_def)
  have one_fin: "\<not> infinite_fitness_present (as_config one_bee_constants)
       (initial_state (as_config one_bee_constants) small_raw)"
    unfolding initial_infinite_fitness_present by code_simp
  have nob: "const_POP_SIZE no_bee_constants = 0"
    by (simp add: no_bee_constants_def unchecked_constants_def)
  have r1: "startup negative_constants small_raw = Inl RuntimeError"
    using no_configuration_check [of negative_constants small_raw small_draws] neg by blast
  have r2: "startup unchecked_constants small_raw =
     Inr (as_config unchecked_constants, initial_state (as_config unchecked_constants) small_raw)"
    "\<exists>out. generation_body (as_config unchecked_constants) small_draws
      (initial_state (as_config unchecked_constants) small_raw) = Inr out"
    using no_configuration_check [of unchecked_constants small_raw small_draws] unc by blast+
  have r3: "\<exists>p fs. generation_body (as_config empty_constants) small_draws
      (initial_state (as_config empty_constants) small_raw) = Inr (Solved p fs)"
    using no_configuration_check [of empty_constants small_raw small_draws] emp by blast
  have r4: "\<exists>out. generation_body (as_config last_dropped_constants) small_draws
      (initial_state (as_config last_dropped_constants) small_raw) = Inr out"
    using no_configuration_check [of last_dropped_constants small_raw small_draws] lst
    by simp
  have r5: "generation_body (as_config no_contender_constants) small_draws
     (initial_state (as_config no_contender_constants) small_raw) = Inl RuntimeError"
    using no_configuration_check [of no_contender_constants small_raw small_draws]
      noc noc_fin by simp
  have r6: "generation_body (as_config one_bee_constants) small_draws
     (initial_state (as_config one_bee_constants) small_raw) = Inl RuntimeError"
    using no_configuration_check [of one_bee_constants small_raw small_draws]
      one one_fin by simp
  have r7: "generation_body (as_config no_bee_constants) small_draws
     (initial_state (as_config no_bee_constants) small_raw) = Inl IndexError"
    using no_configuration_check [of no_bee_constants small_raw small_draws] nob by simp
  from neg r1 unc(1) r2(1) emp(1,2) r3 unc(2,3) r2(2) lst(1,2) r4 noc(1) noc_fin r5
    one one_fin r6 nob r7
  show ?thesis by blast
qed

subsection \<open>The number of strongly mutated positions\<close>

lemma uniform_pool:
  "pool (initial_state script_config uniform_raw) = replicate 100 uniform_gene"
  by code_simp

lemma uniform_fitness_finite:
  "fitness_of (target_gene script_config) uniform_gene \<noteq> Infinity"
  by code_simp

text \<open>
  From a hundred equal rows, generation 1 of the script's constants selects that row as
  every parent, whatever the draws.
\<close>

lemma uniform_parent_selected:
  "\<exists>l. generation_body script_config d (initial_state script_config uniform_raw) =
          Inr (Next l) \<and>
        parents l ! 0 = uniform_gene \<and>
        mutated_parents l ! 0 = strong_mutate_row script_config d 0 uniform_gene"
proof -
  let ?s = "initial_state script_config uniform_raw"
  have wf: "well_formed script_config ?s" by (rule initial_well_formed)
  have pop: "2 \<le> POP_SIZE script_config" "1 \<le> NUM_TOURNAMENT_PARTICIPANTS script_config"
    "0 < POP_SIZE script_config - 1"
    by (simp_all add: script_config_def)
  have fin: "\<not> infinite_fitness_present script_config ?s"
    unfolding initial_infinite_fitness_present uniform_pool
    using uniform_fitness_finite by simp
  from generation_body_no_error [OF wf pop(1,2)] obtain out where
    out: "generation_body script_config d ?s = Inr out" by blast
  have "\<exists>l. out = Next l"
  proof (cases out)
    case (Solved p fs)
    then have "evaluate script_config (pool ?s) = (p, fs)" "Infinity \<in> set fs"
      using out by (simp_all add: generation_body_Solved_iff)
    then have "infinite_fitness_present script_config ?s"
      using infinite_fitness_present_iff [OF wf] by simp
    with fin show ?thesis by simp
  next
    case (Next l)
    then show ?thesis by simp
  qed
  then obtain l where body: "generation_body script_config d ?s = Inr (Next l)"
    using out by blast
  have "0 < length (parents l)"
    using parents_well_formed(1) [OF wf body] pop(3) by simp
  then have "parents l ! 0 \<in> set (parents l)" by (rule nth_mem)
  then have "parents l ! 0 \<in> set (selection_pool l)"
    using parents_well_formed(2) [OF wf body] by blast
  then have "parents l ! 0 \<in> set (pool ?s) \<or> (\<exists>f. queen ?s = Some (parents l ! 0, f))"
    using selection_origin(2) [OF body] by blast
  moreover have "queen ?s = None" by (simp add: initial_state_def)
  ultimately have p: "parents l ! 0 = uniform_gene"
    by (simp add: uniform_pool)
  have "mutated_parents l ! 0 = strong_mutate_row script_config d 0 (parents l ! 0)"
    by (rule mutated_parents_well_formed(1) [OF wf body pop(3)])
  with body p show ?thesis by simp
qed

text \<open>
  C7 (as stated, refuted). With the constants of the script the threshold is 6.25: the
  ranks 0 to 6 lie below it, so seven positions of a parent are changed, where the
  rounded product is 6. The parent is the row of a hundred equal rows, which
  generation 1 selects (lemma \<open>uniform_parent_selected\<close>); the draws give the ranks in
  order and the noise +1.
\<close>

theorem strong_mutation_count_counterexample:
  "strong_mutate_row script_config small_draws 0 uniform_gene =
     replicate 7 101 @ replicate 18 100 \<and>
   length (filter (\<lambda>(a, b). a \<noteq> b)
     (zip (strong_mutate_row script_config small_draws 0 uniform_gene) uniform_gene)) = 7 \<and>
   round (STRONG_MUTATION_PROB script_config * of_nat (gene_length script_config)) = 6"
  by code_simp

text \<open>
  C7 (amended). Where single precision represents \<open>STRONG_MUTATION_PROB\<close> and its
  product with the gene length exactly (as it does 0.25 and 6.25), strong mutation of a
  selected parent chooses the positions whose rank in a random order lies below that
  product: their number is the ceiling of the product (at most the gene length), fixed
  per call. It adds +1 or -1 at each chosen position and clamps the sum to the range 0
  to 255, leaves every other position unchanged, and keeps the length.
\<close>

theorem strong_mutation_positions:
  assumes "reachable cfg s" and "generation_body cfg d s = Inr (Next l)"
    and "i < POP_SIZE cfg - 1"
    and "float_exact (STRONG_MUTATION_PROB cfg)"
    and "float_exact (STRONG_MUTATION_PROB cfg * of_nat (gene_length cfg))"
    and "gene_length cfg \<le> 2 ^ 24"
  shows "length (mutated_parents l ! i) = length (parents l ! i) \<and>
         length (parents l ! i) = gene_length cfg \<and>
         length (mutate_mask (strong_num_code_mutate cfg) (strong_mask_randn d i)
                   (gene_length cfg)) = gene_length cfg \<and>
         length (filter (\<lambda>b. b)
                   (mutate_mask (strong_num_code_mutate cfg) (strong_mask_randn d i)
                      (gene_length cfg))) =
           min (gene_length cfg)
             (nat \<lceil>STRONG_MUTATION_PROB cfg * of_nat (gene_length cfg)\<rceil>) \<and>
         (\<forall>j < gene_length cfg.
            if mutate_mask (strong_num_code_mutate cfg) (strong_mask_randn d i)
                 (gene_length cfg) ! j
            then mutated_parents l ! i ! j = clamp 0 255 (parents l ! i ! j + 1) \<or>
                 mutated_parents l ! i ! j = clamp 0 255 (parents l ! i ! j - 1)
            else mutated_parents l ! i ! j = parents l ! i ! j)"
proof -
  have wf: "well_formed cfg s" using assms(1) by (rule reachable_well_formed)
  note body = assms(2) and i = assms(3)
  have "i < length (parents l)"
    using i parents_well_formed(1) [OF wf body] by simp
  then have "parents l ! i \<in> set (parents l)" by (rule nth_mem)
  then have g: "length (parents l ! i) = gene_length cfg" "byte_gene (parents l ! i)"
    using parents_well_formed(3) [OF wf body] by blast+
  note eq = mutated_parents_well_formed(1) [OF wf body i]
  have a: "length (mutated_parents l ! i) = length (parents l ! i)"
    by (simp add: eq length_strong_mutate_row)
  have b: "length (filter (\<lambda>b. b)
                   (mutate_mask (strong_num_code_mutate cfg) (strong_mask_randn d i)
                      (gene_length cfg))) =
           min (gene_length cfg)
             (nat \<lceil>STRONG_MUTATION_PROB cfg * of_nat (gene_length cfg)\<rceil>)"
    by (simp only: mutate_mask_count strong_num_code_mutate_def)
  have c: "\<forall>j < gene_length cfg.
            if mutate_mask (strong_num_code_mutate cfg) (strong_mask_randn d i)
                 (gene_length cfg) ! j
            then mutated_parents l ! i ! j = clamp 0 255 (parents l ! i ! j + 1) \<or>
                 mutated_parents l ! i ! j = clamp 0 255 (parents l ! i ! j - 1)
            else mutated_parents l ! i ! j = parents l ! i ! j"
  proof (intro allI impI)
    fix j assume "j < gene_length cfg"
    then have "j < length (parents l ! i)" by (simp add: g(1))
    from strong_mutate_row_nth [OF g(2) this, of cfg d i]
    show "if mutate_mask (strong_num_code_mutate cfg) (strong_mask_randn d i)
                 (gene_length cfg) ! j
            then mutated_parents l ! i ! j = clamp 0 255 (parents l ! i ! j + 1) \<or>
                 mutated_parents l ! i ! j = clamp 0 255 (parents l ! i ! j - 1)
            else mutated_parents l ! i ! j = parents l ! i ! j"
      unfolding eq g(1) .
  qed
  from a g(1) b c show ?thesis
    by (simp only: length_mutate_mask simp_thms)
qed

theorem strong_mutation_positions_witness:
  "reachable small_config (initial_state small_config high_raw) \<and>
   generation_body small_config high_draws (initial_state small_config high_raw) =
     Inr (Next high_locals) \<and>
   (1 :: nat) < POP_SIZE small_config - 1 \<and>
   float_exact (STRONG_MUTATION_PROB small_config) \<and>
   float_exact (STRONG_MUTATION_PROB small_config * of_nat (gene_length small_config)) \<and>
   gene_length small_config \<le> 2 ^ 24 \<and>
   float_exact (STRONG_MUTATION_PROB script_config) \<and>
   float_exact (STRONG_MUTATION_PROB script_config * of_nat (gene_length script_config)) \<and>
   gene_length script_config \<le> 2 ^ 24 \<and>
   parents high_locals ! 1 = [1, 254] \<and> mutated_parents high_locals ! 1 = [1, 255] \<and>
   mutate_mask (strong_num_code_mutate small_config) (strong_mask_randn high_draws 1)
     (gene_length small_config) = [False, True] \<and>
   length (filter (\<lambda>b. b)
     (mutate_mask (strong_num_code_mutate small_config) (strong_mask_randn high_draws 1)
        (gene_length small_config))) = 1 \<and>
   (1 :: nat) < gene_length small_config \<and>
   mutated_parents high_locals ! 1 ! 1 = clamp 0 255 (parents high_locals ! 1 ! 1 + 1) \<and>
   mutated_parents high_locals ! 1 ! 0 = parents high_locals ! 1 ! 0"
proof -
  have r: "reachable small_config (initial_state small_config high_raw)"
    by (rule reachable.start)
  have e: "generation_body small_config high_draws (initial_state small_config high_raw) =
     Inr (Next high_locals)"
    by code_simp
  have i: "(1 :: nat) < POP_SIZE small_config - 1"
    by (simp add: small_config_def)
  have f1: "float_exact (STRONG_MUTATION_PROB small_config)"
    by code_simp
  have f2: "float_exact (STRONG_MUTATION_PROB small_config * of_nat (gene_length small_config))"
    by code_simp
  have f3: "gene_length small_config \<le> 2 ^ 24"
    by (simp add: gene_length_def small_config_def)
  note f = f1 f2 f3
  have f1': "float_exact (STRONG_MUTATION_PROB script_config)"
    by code_simp
  have f2': "float_exact (STRONG_MUTATION_PROB script_config * of_nat (gene_length script_config))"
    by code_simp
  have f3': "gene_length script_config \<le> 2 ^ 24"
    by (simp add: gene_length_def script_config_def)
  note f' = f1' f2' f3'
  have m: "mutate_mask (strong_num_code_mutate small_config) (strong_mask_randn high_draws 1)
     (gene_length small_config) = [False, True]"
    by code_simp
  have n: "gene_length small_config = 2"
    by (simp add: small_config_def gene_length_def)
  have n': "min (gene_length small_config)
      (nat \<lceil>STRONG_MUTATION_PROB small_config * of_nat (gene_length small_config)\<rceil>) = 1"
    by code_simp
  note t = strong_mutation_positions [OF r e i f]
  have c: "length (filter (\<lambda>b. b)
     (mutate_mask (strong_num_code_mutate small_config) (strong_mask_randn high_draws 1)
        (gene_length small_config))) = 1"
    using t by (simp only: n')
  have v: "parents high_locals ! 1 = [1, 254]" "mutated_parents high_locals ! 1 = [1, 255]"
    by (simp_all add: high_locals_def)
  have "mutated_parents high_locals ! 1 ! 1 = clamp 0 255 (parents high_locals ! 1 ! 1 + 1)"
    "mutated_parents high_locals ! 1 ! 0 = parents high_locals ! 1 ! 0"
    by (simp_all add: high_locals_def clamp_def)
  with r e i f f' m c v n show ?thesis by simp
qed

subsection \<open>The mutation of lines 119 to 123\<close>

text \<open>
  C1 (the script departs from it). In generation 1 of the small run the mutation of
  line 121 yields \<open>[[66, 77], [66, 67]]\<close>, but line 123 clamps \<open>pool\<close>, the output
  of the crossover: the population of the next generation is \<open>[[65, 77], [65, 67]]\<close>
  and the mutated tensor is dropped.
\<close>

theorem weak_mutation_result_dropped:
  "generation_body small_config small_draws (initial_state small_config small_raw) =
     Inr (Next small_locals1) \<and>
   crossed_pool small_locals1 = [[65, 77], [65, 67]] \<and>
   mutated_pool small_locals1 = [[66, 77], [66, 67]] \<and>
   pool (next_state (initial_state small_config small_raw) small_locals1) =
     [[65, 77], [65, 67]]"
  using small_generation1 by (simp add: small_locals1_def next_state_def)

text \<open>
  C4 (the script departs from it). From an initial population that holds 254, strong
  mutation and the clamp of line 99 give parents with 255; the mutation of line 121 adds
  1 to it and its result \<open>[[65, 256], [65, 256]]\<close> is never clamped, since line 123
  clamps \<open>pool\<close> instead.
\<close>

theorem weak_mutation_result_out_of_range:
  "generation_body small_config high_draws (initial_state small_config high_raw) =
     Inr (Next high_locals) \<and>
   mutated_parents high_locals = [[3, 255], [1, 255]] \<and>
   crossed_pool high_locals = [[65, 255], [65, 255]] \<and>
   mutated_pool high_locals = [[65, 256], [65, 256]] \<and>
   mutated_pool high_locals ! 0 ! 1 = 256 \<and>
   clamped_pool high_locals = [[65, 255], [65, 255]]"
proof -
  have "generation_body small_config high_draws (initial_state small_config high_raw) =
     Inr (Next high_locals)"
    by code_simp
  then show ?thesis
    by (simp add: high_locals_def)
qed

end
